theory Spec2Isabelle
  imports Complex_Main "HOL-Library.Word"
begin

section \<open>JavaScript strings\<close>

text \<open>
  A JavaScript string is a sequence of 16-bit UTF-16 code units. String literals of the
  source are written \<open>lit ''...''\<close> and character literals \<open>ch CHR ''...''\<close>.
\<close>

type_synonym jschar = "16 word"
type_synonym jsstring = "jschar list"

definition ch :: "char \<Rightarrow> jschar" where
  "ch c = of_nat (of_char c)"

definition lit :: "string \<Rightarrow> jsstring" where
  "lit s = map ch s"

text \<open>The line terminators of ECMAScript: LF, CR, LS and PS. The regular expression atom
  \<open>.\<close> matches every code unit but these.\<close>

definition isLineTerminator :: "jschar \<Rightarrow> bool" where
  "isLineTerminator c \<longleftrightarrow> c = 0x000A \<or> c = 0x000D \<or> c = 0x2028 \<or> c = 0x2029"

text \<open>The white space of ECMAScript: TAB, VT, FF, ZWNBSP and the space separators.\<close>

definition isWhiteSpace :: "jschar \<Rightarrow> bool" where
  "isWhiteSpace c \<longleftrightarrow>
     c = 0x0009 \<or> c = 0x000B \<or> c = 0x000C \<or> c = 0x0020 \<or> c = 0x00A0 \<or> c = 0x1680 \<or>
     (0x2000 \<le> c \<and> c \<le> 0x200A) \<or> c = 0x202F \<or> c = 0x205F \<or> c = 0x3000 \<or> c = 0xFEFF"

definition isTrimmed :: "jschar \<Rightarrow> bool" where
  "isTrimmed c \<longleftrightarrow> isWhiteSpace c \<or> isLineTerminator c"

text \<open>\<open>String.prototype.trim\<close>: white space and line terminators go from both ends.\<close>

definition trim :: "jsstring \<Rightarrow> jsstring" where
  "trim s = rev (dropWhile isTrimmed (rev (dropWhile isTrimmed s)))"

text \<open>\<open>String.prototype.split\<close> with a one-character separator: the pieces between the
  separators, at least one piece. (The URL standard splits byte sequences the same way.)\<close>

fun split_on :: "'a \<Rightarrow> 'a list \<Rightarrow> 'a list list" where
  "split_on sep [] = [[]]"
| "split_on sep (c # cs) =
     (if c = sep then [] # split_on sep cs
      else (case split_on sep cs of [] \<Rightarrow> [[c]] | p # ps \<Rightarrow> (c # p) # ps))"

text \<open>\<open>item.replaceAll(/;(.*)/g, '')\<close>: every match is a semicolon and the longest run of
  code units after it that holds no line terminator; the matches are removed from left to
  right.\<close>

function remove_semicolon_matches :: "jsstring \<Rightarrow> jsstring" where
  "remove_semicolon_matches [] = []"
| "remove_semicolon_matches (c # cs) =
     (if c = ch CHR '';''
      then remove_semicolon_matches (dropWhile (\<lambda>d. \<not> isLineTerminator d) cs)
      else c # remove_semicolon_matches cs)"
  by pat_completeness auto
termination
  by (relation "measure length") (auto simp: less_Suc_eq_le length_dropWhile_le)

text \<open>\<open>item.replaceAll(/,$/g, '')\<close>: without the multiline flag \<open>$\<close> is the end of the
  string, so the only possible match is a comma that is the last code unit.\<close>

definition remove_final_comma :: "jsstring \<Rightarrow> jsstring" where
  "remove_final_comma s = (if s \<noteq> [] \<and> last s = ch CHR '','' then butlast s else s)"

section \<open>Objects with string properties\<close>

text \<open>
  The objects \<open>data\<close> that the parser builds hold string-valued properties under the
  keys \<open>color\<close> and \<open>name\<close>. An object is the list of its properties in insertion order,
  which is the order \<open>Object.keys\<close> and \<open>JSON.stringify\<close> follow.
\<close>

type_synonym jsobject = "(jsstring \<times> jsstring) list"

text \<open>\<open>obj[k] = v\<close>: an existing property keeps its place, a new one goes last.\<close>

fun set_prop :: "jsstring \<Rightarrow> 'v \<Rightarrow> (jsstring \<times> 'v) list \<Rightarrow> (jsstring \<times> 'v) list" where
  "set_prop k v [] = [(k, v)]"
| "set_prop k v (p # ps) = (if fst p = k then (k, v) # ps else p # set_prop k v ps)"

text \<open>\<open>obj[k]\<close>: \<open>None\<close> is \<open>undefined\<close>.\<close>

definition get_prop :: "jsstring \<Rightarrow> jsobject \<Rightarrow> jsstring option" where
  "get_prop k obj = map_of obj k"

section \<open>The color library\<close>

text \<open>
  \<open>tinycolor\<close> is the argument of the script's outer function; the script uses four of
  its operations. A color argument is a property read, so it may be \<open>undefined\<close>.
  \<open>mostReadable\<close> stands for \<open>tinycolor.mostReadable(c, list).toHexString()\<close>.
\<close>

record tinycolor =
  isValid :: "jsstring \<Rightarrow> bool"
  toHexString :: "jsstring option \<Rightarrow> jsstring"
  readability :: "jsstring option \<Rightarrow> jsstring option \<Rightarrow> real"
  mostReadable :: "jsstring option \<Rightarrow> jsstring list \<Rightarrow> jsstring"

section \<open>getInputData\<close>

text \<open>Lines 21 and 22 of the script: what the inner loop does to a segment before it
  looks at it.\<close>

definition clean_item :: "jsstring \<Rightarrow> jsstring" where
  "clean_item item = trim (remove_final_comma (trim (remove_semicolon_matches item)))"

text \<open>The body of the inner \<open>forEach\<close>: the state is \<open>data\<close> and \<open>lineHasValidColor\<close>.\<close>

definition classify_item ::
  "tinycolor \<Rightarrow> jsobject \<times> bool \<Rightarrow> nat \<times> jsstring \<Rightarrow> jsobject \<times> bool" where
  "classify_item tc st p =
     (case st of (data, lineHasValidColor) \<Rightarrow>
      case p of (index, item0) \<Rightarrow>
        if index \<ge> 2 then (data, lineHasValidColor)
        else
          let item = clean_item item0 in
          if isValid tc item then (set_prop (lit ''color'') item data, True)
          else if length item \<noteq> 0 then (set_prop (lit ''name'') item data, False)
          else (data, False))"

definition parse_line :: "tinycolor \<Rightarrow> jsstring \<Rightarrow> jsobject \<times> bool" where
  "parse_line tc line =
     foldl (classify_item tc) ([], False) (enumerate 0 (split_on (ch CHR '':'') line))"

definition getInputData :: "tinycolor \<Rightarrow> jsstring \<Rightarrow> jsobject list" where
  "getInputData tc string =
     foldl (\<lambda>outputArray line.
              case parse_line tc line of (data, lineHasValidColor) \<Rightarrow>
                if length data \<noteq> 0 \<and> lineHasValidColor then outputArray @ [data]
                else outputArray)
       [] (split_on 0x000A string)"

section \<open>Numbers and their texts\<close>

text \<open>
  A number is a real: the rounding of binary floating point is not modelled, and neither
  is the exponent notation that \<open>toFixed\<close> switches to from \<open>10 ^ 21\<close> on (a contrast ratio
  is at most 21). \<open>Number.prototype.toFixed\<close>: the integer \<open>n\<close> nearest to \<open>x * 10 ^ f\<close>, the
  larger one of two, is written in decimal, padded with zeros to \<open>f + 1\<close> digits, and the
  point is put before the last \<open>f\<close> digits; a negative \<open>x\<close> is treated by its absolute
  value and a minus sign.
\<close>

function decimal :: "nat \<Rightarrow> jsstring" where
  "decimal n = (if n < 10 then [of_nat (0x30 + n)]
                else decimal (n div 10) @ [of_nat (0x30 + n mod 10)])"
  by pat_completeness auto
termination
  by (relation "measure id") auto

declare decimal.simps [simp del]

definition toFixed :: "nat \<Rightarrow> real \<Rightarrow> jsstring" where
  "toFixed f x =
     (let s = (if x < 0 then lit ''-'' else []);
          n = nat \<lfloor>\<bar>x\<bar> * 10 ^ f + 1 / 2\<rfloor>;
          m = decimal n;
          m = (if f \<noteq> 0 \<and> length m \<le> f then replicate (f + 1 - length m) 0x30 @ m else m);
          k = length m
      in if f \<noteq> 0 then s @ take (k - f) m @ lit ''.'' @ drop (k - f) m else s @ m)"

text \<open>
  \<open>parseFloat\<close>: leading white space and line terminators are skipped, and the longest
  prefix of the rest that is a decimal literal (a sign, then \<open>Infinity\<close> or digits with
  an optional fraction and an optional exponent) gives the number; without such a prefix
  the result is \<open>NaN\<close>.
\<close>

datatype number = NaN | Number real | PlusInfinity | MinusInfinity

definition isDecimalDigit :: "jschar \<Rightarrow> bool" where
  "isDecimalDigit c \<longleftrightarrow> 0x30 \<le> c \<and> c \<le> 0x39"

definition digits_value :: "jsstring \<Rightarrow> nat" where
  "digits_value ds = foldl (\<lambda>v c. 10 * v + (unat c - 0x30)) 0 ds"

definition isPrefix :: "jsstring \<Rightarrow> jsstring \<Rightarrow> bool" where
  "isPrefix p s \<longleftrightarrow> take (length p) s = p"

text \<open>The exponent part at the head of a string, if there is one: its value and its
  length.\<close>

definition exponent_part :: "jsstring \<Rightarrow> (int \<times> nat) option" where
  "exponent_part s =
     (case s of
        [] \<Rightarrow> None
      | e # r \<Rightarrow>
          if e = ch CHR ''e'' \<or> e = ch CHR ''E'' then
            (let sign = (if isPrefix (lit ''-'') r \<or> isPrefix (lit ''+'') r then 1 else 0);
                 ds = takeWhile isDecimalDigit (drop sign r)
             in if ds = [] then None
                else Some (if isPrefix (lit ''-'') r then - int (digits_value ds)
                           else int (digits_value ds),
                           1 + sign + length ds))
          else None)"

definition unsigned_decimal :: "jsstring \<Rightarrow> real option" where
  "unsigned_decimal s =
     (let ip = takeWhile isDecimalDigit s;
          r1 = drop (length ip) s;
          fp = (if isPrefix (lit ''.'') r1 then takeWhile isDecimalDigit (drop 1 r1) else []);
          r2 = (if isPrefix (lit ''.'') r1 \<and> (ip \<noteq> [] \<or> fp \<noteq> [])
                then drop (1 + length fp) r1 else r1);
          mantissa = real (digits_value ip) + real (digits_value fp) / 10 ^ length fp
      in if ip = [] \<and> fp = [] then None
         else (case exponent_part r2 of
                 None \<Rightarrow> Some mantissa
               | Some (e, l) \<Rightarrow> Some (mantissa * 10 powi e)))"

definition parseFloat :: "jsstring \<Rightarrow> number" where
  "parseFloat string =
     (let trimmed = dropWhile isTrimmed string;
          negative = isPrefix (lit ''-'') trimmed;
          unsigned = (if negative \<or> isPrefix (lit ''+'') trimmed then drop 1 trimmed else trimmed)
      in if isPrefix (lit ''Infinity'') unsigned
         then (if negative then MinusInfinity else PlusInfinity)
         else (case unsigned_decimal unsigned of
                 None \<Rightarrow> NaN
               | Some v \<Rightarrow> Number (if negative then - v else v)))"

text \<open>\<open>a < b\<close> for a number \<open>a\<close> and a finite number \<open>b\<close>.\<close>

fun less_than :: "number \<Rightarrow> real \<Rightarrow> bool" where
  "less_than NaN b = False"
| "less_than (Number a) b = (a < b)"
| "less_than PlusInfinity b = False"
| "less_than MinusInfinity b = True"

section \<open>The markup of the table\<close>

text \<open>
  The four builders return markup as a string; the template literals are copied with
  their line breaks and indentation. \<open>interpolate\<close> is the text that a template literal
  writes for a property read, which may be \<open>undefined\<close>.
\<close>

definition interpolate :: "jsstring option \<Rightarrow> jsstring" where
  "interpolate v = (case v of None \<Rightarrow> lit ''undefined'' | Some s \<Rightarrow> s)"

definition name_markup :: "jsobject \<Rightarrow> jsstring" where
  "name_markup data =
     (if get_prop (lit ''name'') data \<noteq> None then
        lit ''\<newline>              <div class=\"color-name\">\<newline>                '' @
        interpolate (get_prop (lit ''name'') data) @
        lit ''\<newline>              </div>\<newline>              ''
      else [])"

definition header_cell :: "tinycolor \<Rightarrow> jsobject \<Rightarrow> jsstring" where
  "header_cell tc data =
     lit ''\<newline>        <th scope=\"col\" style=\"\<newline>            --color: '' @
     toHexString tc (get_prop (lit ''color'') data) @
     lit '';\<newline>            --text-color: '' @
     mostReadable tc (get_prop (lit ''color'') data) [lit ''#fff'', lit ''#000''] @
     lit '';\<newline>        \">\<newline>          <span>\<newline>            '' @
     name_markup data @
     lit ''\<newline>            '' @
     interpolate (get_prop (lit ''color'') data) @
     lit ''\<newline>          </span>\<newline>        </th>\<newline>      ''"

definition buildHeaderRow :: "tinycolor \<Rightarrow> jsobject list \<Rightarrow> jsstring" where
  "buildHeaderRow tc xAxisData =
     (let headerCells = concat (map (header_cell tc) xAxisData) in
      lit ''\<newline>      <tr>\<newline>        <td></td>\<newline>        '' @
      headerCells @
      lit ''\<newline>      </tr>\<newline>    '')"

definition table_td :: "tinycolor \<Rightarrow> jsstring option \<Rightarrow> jsobject \<Rightarrow> jsstring" where
  "table_td tc compareColor data =
     (let readability = readability tc (get_prop (lit ''color'') data) compareColor in
      lit ''\<newline>        <td tabindex=\"0\" role=\"button\" style=\"\<newline>            --color-1: '' @
      toHexString tc (get_prop (lit ''color'') data) @
      lit '';\<newline>            --color-2: '' @
      toHexString tc compareColor @
      lit '';\<newline>            --hover-text-color: '' @
      mostReadable tc (get_prop (lit ''color'') data) [lit ''#fff'', lit ''#000''] @
      lit '';\<newline>        \">\<newline>          '' @
      toFixed 2 readability @
      lit ''\<newline>        </td>\<newline>      '')"

definition buildTableTds :: "tinycolor \<Rightarrow> jsobject list \<Rightarrow> jsstring option \<Rightarrow> jsstring" where
  "buildTableTds tc xAxisData compareColor = concat (map (table_td tc compareColor) xAxisData)"

definition data_row :: "tinycolor \<Rightarrow> jsobject list \<Rightarrow> jsobject \<Rightarrow> jsstring" where
  "data_row tc xAxisData data =
     lit ''\<newline>        <tr>\<newline>          <th scope=\"row\" style=\"\<newline>            --color: '' @
     toHexString tc (get_prop (lit ''color'') data) @
     lit '';\<newline>            --text-color: '' @
     mostReadable tc (get_prop (lit ''color'') data) [lit ''#fff'', lit ''#000''] @
     lit '';\<newline>          \">\<newline>            '' @
     name_markup data @
     lit ''\<newline>\<newline>            '' @
     interpolate (get_prop (lit ''color'') data) @
     lit ''\<newline>          </th>\<newline>          '' @
     buildTableTds tc xAxisData (get_prop (lit ''color'') data) @
     lit ''\<newline>        </tr>\<newline>      ''"

definition buildDataRows :: "tinycolor \<Rightarrow> jsobject list \<Rightarrow> jsobject list \<Rightarrow> jsstring" where
  "buildDataRows tc xAxisData yAxisData = concat (map (data_row tc xAxisData) yAxisData)"

definition buildTable :: "tinycolor \<Rightarrow> jsobject list \<Rightarrow> jsobject list \<Rightarrow> jsstring" where
  "buildTable tc xAxisData yAxisData =
     lit ''\<newline>      <table>\<newline>        '' @
     buildHeaderRow tc xAxisData @
     lit ''\<newline>        '' @
     buildDataRows tc xAxisData yAxisData @
     lit ''\<newline>      </table>\<newline>      <dialog id=\"popover\" aria-live=\"polite\"></dialog>\<newline>    ''"

section \<open>The document tree\<close>

text \<open>
  A node of the document is a text or an element with its attributes and children.
  \<open>textContent\<close> is the concatenation of the texts below a node, and \<open>querySelectorAll\<close>
  with a type selector lists the elements of that name below the given nodes in tree
  order.
\<close>

type_synonym attributes = "(jsstring \<times> jsstring) list"

datatype node = Text jsstring | Element jsstring attributes "node list"

fun textContent :: "node \<Rightarrow> jsstring" where
  "textContent (Text s) = s"
| "textContent (Element name attrs children) = concat (map textContent children)"

fun elements_named :: "jsstring \<Rightarrow> node \<Rightarrow> node list" where
  "elements_named name (Text s) = []"
| "elements_named name (Element tag attrs children) =
     (if tag = name then [Element tag attrs children] else []) @
     concat (map (elements_named name) children)"

definition querySelectorAll :: "jsstring \<Rightarrow> node list \<Rightarrow> node list" where
  "querySelectorAll name nodes = concat (map (elements_named name) nodes)"

text \<open>
  \<open>classList\<close> is the set of tokens of the \<open>class\<close> attribute, in order. \<open>add\<close> and
  \<open>remove\<close> change the set and write it back to the attribute, joined by single spaces;
  \<open>remove\<close> does not create the attribute.
\<close>

definition isASCIIWhitespace :: "jschar \<Rightarrow> bool" where
  "isASCIIWhitespace c \<longleftrightarrow> c = 0x09 \<or> c = 0x0A \<or> c = 0x0C \<or> c = 0x0D \<or> c = 0x20"

definition split_on_whitespace :: "jsstring \<Rightarrow> jsstring list" where
  "split_on_whitespace s =
     filter (\<lambda>t. t \<noteq> [])
       (foldr (\<lambda>c ts. if isASCIIWhitespace c then [] # ts else (c # hd ts) # tl ts) s [[]])"

definition ordered_set :: "'a list \<Rightarrow> 'a list" where
  "ordered_set xs = rev (remdups (rev xs))"

definition get_attribute :: "jsstring \<Rightarrow> attributes \<Rightarrow> jsstring option" where
  "get_attribute name attrs = map_of attrs name"

definition set_attribute :: "jsstring \<Rightarrow> jsstring \<Rightarrow> attributes \<Rightarrow> attributes" where
  "set_attribute name v attrs =
     (if name \<in> fst ` set attrs then map (\<lambda>p. if fst p = name then (name, v) else p) attrs
      else attrs @ [(name, v)])"

definition classList :: "attributes \<Rightarrow> jsstring list" where
  "classList attrs =
     (case get_attribute (lit ''class'') attrs of
        None \<Rightarrow> []
      | Some v \<Rightarrow> ordered_set (split_on_whitespace v))"

fun serialize_set :: "jsstring list \<Rightarrow> jsstring" where
  "serialize_set [] = []"
| "serialize_set [t] = t"
| "serialize_set (t # u # r) = t @ 0x20 # serialize_set (u # r)"

definition classList_add :: "jsstring \<Rightarrow> attributes \<Rightarrow> attributes" where
  "classList_add token attrs =
     set_attribute (lit ''class'')
       (serialize_set (if token \<in> set (classList attrs) then classList attrs
                       else classList attrs @ [token]))
       attrs"

definition classList_remove :: "jsstring \<Rightarrow> attributes \<Rightarrow> attributes" where
  "classList_remove token attrs =
     (if get_attribute (lit ''class'') attrs = None \<and> classList attrs = [] then attrs
      else set_attribute (lit ''class'')
             (serialize_set (filter (\<lambda>t. t \<noteq> token) (classList attrs))) attrs)"

section \<open>Parsing markup\<close>

text \<open>
  Assigning to \<open>innerHTML\<close> parses the string as a fragment in the context of the
  element, here a \<open>div\<close>, and replaces the children of the element by the result. The
  parser is that of the standard for the part of the language that the table is written
  in: text, start tags with attributes and end tags; the elements \<open>table\<close>, \<open>tr\<close>, \<open>td\<close>,
  \<open>th\<close>, \<open>div\<close>, \<open>span\<close> and \<open>dialog\<close>; the implied \<open>tbody\<close>; white space between the
  rows and cells of a table. The result is \<open>None\<close> for every input outside this part:
  character references, comments, other elements, omitted or misnested tags and every
  other parse error, whose repair by the parser is not modelled.

  The tokenizer is the state machine of the standard, one equation for each state.
\<close>

datatype html_token = Character jschar | StartTag jsstring attributes | EndTag jsstring

type_synonym tag = "bool \<times> jsstring \<times> attributes"

datatype tokenizer_state =
    DataState
  | TagOpenState
  | EndTagOpenState
  | TagNameState bool jsstring
  | BeforeAttributeNameState tag
  | AttributeNameState tag jsstring
  | AfterAttributeNameState tag jsstring
  | BeforeAttributeValueState tag jsstring
  | AttributeValueDoubleQuotedState tag jsstring jsstring
  | AttributeValueSingleQuotedState tag jsstring jsstring
  | AttributeValueUnquotedState tag jsstring jsstring
  | AfterAttributeValueQuotedState tag

definition isTagWhitespace :: "jschar \<Rightarrow> bool" where
  "isTagWhitespace c \<longleftrightarrow> c = 0x09 \<or> c = 0x0A \<or> c = 0x0C \<or> c = 0x20"

definition isASCIIAlpha :: "jschar \<Rightarrow> bool" where
  "isASCIIAlpha c \<longleftrightarrow> (0x41 \<le> c \<and> c \<le> 0x5A) \<or> (0x61 \<le> c \<and> c \<le> 0x7A)"

definition lowercase :: "jschar \<Rightarrow> jschar" where
  "lowercase c = (if 0x41 \<le> c \<and> c \<le> 0x5A then c + 0x20 else c)"

text \<open>Code units that the input stream or the state at hand does not pass on unchanged:
  NUL and CR everywhere; in a name also the quotes, \<open><\<close> and \<open>/\<close>; in an unquoted value
  the quotes, \<open><\<close>, \<open>=\<close>, the grave accent and \<open>&\<close>.\<close>

definition unmodelled :: "jschar \<Rightarrow> bool" where
  "unmodelled c \<longleftrightarrow> c = 0x00 \<or> c = 0x0D"

definition unmodelled_in_name :: "jschar \<Rightarrow> bool" where
  "unmodelled_in_name c \<longleftrightarrow> unmodelled c \<or> c = 0x22 \<or> c = 0x27 \<or> c = 0x3C \<or> c = 0x2F"

definition unmodelled_unquoted :: "jschar \<Rightarrow> bool" where
  "unmodelled_unquoted c \<longleftrightarrow>
     unmodelled c \<or> c = 0x22 \<or> c = 0x27 \<or> c = 0x3C \<or> c = 0x3D \<or> c = 0x60 \<or> c = 0x26"

definition add_attribute :: "tag \<Rightarrow> jsstring \<Rightarrow> jsstring \<Rightarrow> tag option" where
  "add_attribute t name v =
     (case t of (e, n, attrs) \<Rightarrow>
        if name \<in> fst ` set attrs then None else Some (e, n, attrs @ [(name, v)]))"

definition tag_token :: "tag \<Rightarrow> html_token option" where
  "tag_token t =
     (case t of (e, n, attrs) \<Rightarrow>
        if e then (if attrs = [] then Some (EndTag n) else None) else Some (StartTag n attrs))"

definition emit :: "html_token option \<Rightarrow> html_token list option \<Rightarrow> html_token list option" where
  "emit t ts = (case t of None \<Rightarrow> None
                | Some a \<Rightarrow> (case ts of None \<Rightarrow> None | Some r \<Rightarrow> Some (a # r)))"

fun tokenize :: "tokenizer_state \<Rightarrow> jsstring \<Rightarrow> html_token list option" where
  "tokenize DataState [] = Some []"
| "tokenize DataState (c # cs) =
     (if c = 0x3C then tokenize TagOpenState cs
      else if c = 0x26 \<or> unmodelled c then None
      else emit (Some (Character c)) (tokenize DataState cs))"
| "tokenize TagOpenState (c # cs) =
     (if c = 0x2F then tokenize EndTagOpenState cs
      else if isASCIIAlpha c then tokenize (TagNameState False [lowercase c]) cs
      else None)"
| "tokenize EndTagOpenState (c # cs) =
     (if isASCIIAlpha c then tokenize (TagNameState True [lowercase c]) cs else None)"
| "tokenize (TagNameState e n) (c # cs) =
     (if isTagWhitespace c then tokenize (BeforeAttributeNameState (e, n, [])) cs
      else if c = 0x3E then emit (tag_token (e, n, [])) (tokenize DataState cs)
      else if c = 0x2F \<or> unmodelled c then None
      else tokenize (TagNameState e (n @ [lowercase c])) cs)"
| "tokenize (BeforeAttributeNameState t) (c # cs) =
     (if isTagWhitespace c then tokenize (BeforeAttributeNameState t) cs
      else if c = 0x3E then emit (tag_token t) (tokenize DataState cs)
      else if c = 0x3D \<or> unmodelled_in_name c then None
      else tokenize (AttributeNameState t [lowercase c]) cs)"
| "tokenize (AttributeNameState t n) (c # cs) =
     (if isTagWhitespace c then tokenize (AfterAttributeNameState t n) cs
      else if c = 0x3D then tokenize (BeforeAttributeValueState t n) cs
      else if c = 0x3E then
        (case add_attribute t n [] of
           None \<Rightarrow> None
         | Some t' \<Rightarrow> emit (tag_token t') (tokenize DataState cs))
      else if unmodelled_in_name c then None
      else tokenize (AttributeNameState t (n @ [lowercase c])) cs)"
| "tokenize (AfterAttributeNameState t n) (c # cs) =
     (if isTagWhitespace c then tokenize (AfterAttributeNameState t n) cs
      else if c = 0x3D then tokenize (BeforeAttributeValueState t n) cs
      else if c = 0x3E then
        (case add_attribute t n [] of
           None \<Rightarrow> None
         | Some t' \<Rightarrow> emit (tag_token t') (tokenize DataState cs))
      else if unmodelled_in_name c then None
      else
        (case add_attribute t n [] of
           None \<Rightarrow> None
         | Some t' \<Rightarrow> tokenize (AttributeNameState t' [lowercase c]) cs))"
| "tokenize (BeforeAttributeValueState t n) (c # cs) =
     (if isTagWhitespace c then tokenize (BeforeAttributeValueState t n) cs
      else if c = 0x22 then tokenize (AttributeValueDoubleQuotedState t n []) cs
      else if c = 0x27 then tokenize (AttributeValueSingleQuotedState t n []) cs
      else if c = 0x3E \<or> unmodelled_unquoted c then None
      else tokenize (AttributeValueUnquotedState t n [c]) cs)"
| "tokenize (AttributeValueDoubleQuotedState t n v) (c # cs) =
     (if c = 0x22 then
        (case add_attribute t n v of
           None \<Rightarrow> None
         | Some t' \<Rightarrow> tokenize (AfterAttributeValueQuotedState t') cs)
      else if c = 0x26 \<or> unmodelled c then None
      else tokenize (AttributeValueDoubleQuotedState t n (v @ [c])) cs)"
| "tokenize (AttributeValueSingleQuotedState t n v) (c # cs) =
     (if c = 0x27 then
        (case add_attribute t n v of
           None \<Rightarrow> None
         | Some t' \<Rightarrow> tokenize (AfterAttributeValueQuotedState t') cs)
      else if c = 0x26 \<or> unmodelled c then None
      else tokenize (AttributeValueSingleQuotedState t n (v @ [c])) cs)"
| "tokenize (AttributeValueUnquotedState t n v) (c # cs) =
     (if isTagWhitespace c then
        (case add_attribute t n v of
           None \<Rightarrow> None
         | Some t' \<Rightarrow> tokenize (BeforeAttributeNameState t') cs)
      else if c = 0x3E then
        (case add_attribute t n v of
           None \<Rightarrow> None
         | Some t' \<Rightarrow> emit (tag_token t') (tokenize DataState cs))
      else if unmodelled_unquoted c then None
      else tokenize (AttributeValueUnquotedState t n (v @ [c])) cs)"
| "tokenize (AfterAttributeValueQuotedState t) (c # cs) =
     (if isTagWhitespace c then tokenize (BeforeAttributeNameState t) cs
      else if c = 0x3E then emit (tag_token t) (tokenize DataState cs)
      else None)"
| "tokenize s [] = None"

text \<open>
  Tree construction keeps the stack of open elements, the current node first and the
  root of the fragment last; an open element has its name, its attributes and the
  children it has so far. The insertion mode is the one that the standard's reset
  algorithm reads off the stack, which for the inputs that are parsed here is the mode
  the parser is in.
\<close>

type_synonym open_element = "jsstring \<times> attributes \<times> node list"

datatype insertion_mode = InBody | InTable | InTableBody | InRow | InCell

fun reset_insertion_mode :: "open_element list \<Rightarrow> insertion_mode" where
  "reset_insertion_mode [] = InBody"
| "reset_insertion_mode ((name, attrs, children) # below) =
     (if below = [] then InBody
      else if name = lit ''td'' \<or> name = lit ''th'' then InCell
      else if name = lit ''tr'' then InRow
      else if name = lit ''tbody'' \<or> name = lit ''thead'' \<or> name = lit ''tfoot'' then InTableBody
      else if name = lit ''table'' then InTable
      else reset_insertion_mode below)"

fun insert_character :: "jschar \<Rightarrow> node list \<Rightarrow> node list" where
  "insert_character c [] = [Text [c]]"
| "insert_character c [Text s] = [Text (s @ [c])]"
| "insert_character c [Element name attrs children] = [Element name attrs children, Text [c]]"
| "insert_character c (n # m # r) = n # insert_character c (m # r)"

definition push_element :: "jsstring \<Rightarrow> attributes \<Rightarrow> open_element list \<Rightarrow> open_element list" where
  "push_element name attrs stack = (name, attrs, []) # stack"

fun pop_element :: "open_element list \<Rightarrow> open_element list option" where
  "pop_element ((name, attrs, children) # (name', attrs', children') # below) =
     Some ((name', attrs', children' @ [Element name attrs children]) # below)"
| "pop_element stack = None"

definition in_body_element :: "jsstring \<Rightarrow> bool" where
  "in_body_element name \<longleftrightarrow> name = lit ''div'' \<or> name = lit ''dialog'' \<or> name = lit ''span''"

definition process_token :: "html_token \<Rightarrow> open_element list \<Rightarrow> open_element list option" where
  "process_token token stack =
     (case stack of
        [] \<Rightarrow> None
      | (current, attrs, children) # below \<Rightarrow>
          (case token of
             Character c \<Rightarrow>
               (case reset_insertion_mode stack of
                  InBody \<Rightarrow> Some ((current, attrs, insert_character c children) # below)
                | InCell \<Rightarrow> Some ((current, attrs, insert_character c children) # below)
                | _ \<Rightarrow>
                    if isASCIIWhitespace c
                    then Some ((current, attrs, insert_character c children) # below)
                    else None)
           | StartTag name as \<Rightarrow>
               (case reset_insertion_mode stack of
                  InTable \<Rightarrow>
                    if name = lit ''tr''
                    then Some (push_element name as (push_element (lit ''tbody'') [] stack))
                    else None
                | InTableBody \<Rightarrow>
                    if name = lit ''tr'' then Some (push_element name as stack) else None
                | InRow \<Rightarrow>
                    if name = lit ''td'' \<or> name = lit ''th''
                    then Some (push_element name as stack) else None
                | _ \<Rightarrow>
                    if in_body_element name \<or> name = lit ''table''
                    then Some (push_element name as stack) else None)
           | EndTag name \<Rightarrow>
               (case reset_insertion_mode stack of
                  InTable \<Rightarrow>
                    if name = lit ''table'' \<and> current = lit ''table'' then pop_element stack
                    else None
                | InTableBody \<Rightarrow>
                    if name = lit ''table'' \<and> current = lit ''tbody'' \<and>
                       map fst (take 1 below) = [lit ''table'']
                    then (case pop_element stack of None \<Rightarrow> None | Some s \<Rightarrow> pop_element s)
                    else None
                | InRow \<Rightarrow>
                    if name = lit ''tr'' \<and> current = lit ''tr'' then pop_element stack else None
                | InCell \<Rightarrow>
                    if name = current \<and>
                       (in_body_element name \<or> name = lit ''td'' \<or> name = lit ''th'')
                    then pop_element stack else None
                | InBody \<Rightarrow>
                    if name = current \<and> in_body_element name then pop_element stack
                    else None)))"

fun construct_tree :: "html_token list \<Rightarrow> open_element list \<Rightarrow> open_element list option" where
  "construct_tree [] stack = Some stack"
| "construct_tree (t # ts) stack =
     (case process_token t stack of None \<Rightarrow> None | Some s \<Rightarrow> construct_tree ts s)"

definition parse_fragment :: "jsstring \<Rightarrow> node list option" where
  "parse_fragment markup =
     (case tokenize DataState markup of
        None \<Rightarrow> None
      | Some tokens \<Rightarrow>
          (case construct_tree tokens [(lit ''html'', [], [])] of
             Some [(name, attrs, children)] \<Rightarrow> Some children
           | _ \<Rightarrow> None))"

section \<open>setCellContrast\<close>

text \<open>
  \<open>setCellContrast\<close> visits every \<open>td\<close> below the container: the cell gets the class
  \<open>doesNotMeet\<close> when the number that \<open>parseFloat\<close> reads in its text is less than the
  threshold, and loses it otherwise. The threshold is the value of the range control,
  a finite number.
\<close>

fun set_cell :: "real \<Rightarrow> node \<Rightarrow> node" where
  "set_cell contrast (Text s) = Text s"
| "set_cell contrast (Element name attrs children) =
     (let cellValue = parseFloat (textContent (Element name attrs children)) in
      Element name
        (if name = lit ''td'' then
           (if less_than cellValue contrast then classList_add (lit ''doesNotMeet'') attrs
            else classList_remove (lit ''doesNotMeet'') attrs)
         else attrs)
        (map (set_cell contrast) children))"

definition setCellContrast :: "real \<Rightarrow> node list \<Rightarrow> node list" where
  "setCellContrast contrast container = map (set_cell contrast) container"

section \<open>Percent-encoding of URI components\<close>

text \<open>
  The functions of the platform that the script calls are modelled from their standards.
  \<open>encodeURIComponent\<close> and \<open>decodeURIComponent\<close> follow the abstract operations Encode
  and Decode of ECMA-262: a string is read code point by code point, a code point outside
  the unreserved set is written as the percent escapes of its UTF-8 bytes, and a lone
  surrogate raises a \<open>URIError\<close>. Decoding with an empty reserved set turns every
  well-formed escape sequence back into its code point and raises a \<open>URIError\<close> for
  every other escape. Bytes and code points are natural numbers.
\<close>

datatype js_error = URIError | SyntaxError

definition isLeadSurrogate :: "jschar \<Rightarrow> bool" where
  "isLeadSurrogate c \<longleftrightarrow> 0xD800 \<le> c \<and> c \<le> 0xDBFF"

definition isTrailSurrogate :: "jschar \<Rightarrow> bool" where
  "isTrailSurrogate c \<longleftrightarrow> 0xDC00 \<le> c \<and> c \<le> 0xDFFF"

definition pair_code_point :: "jschar \<Rightarrow> jschar \<Rightarrow> nat" where
  "pair_code_point lead trail = (unat lead - 0xD800) * 0x400 + (unat trail - 0xDC00) + 0x10000"

definition utf16_encode :: "nat \<Rightarrow> jsstring" where
  "utf16_encode cp =
     (if cp < 0x10000 then [of_nat cp]
      else [of_nat (0xD800 + (cp - 0x10000) div 0x400), of_nat (0xDC00 + (cp - 0x10000) mod 0x400)])"

definition utf8_encode :: "nat \<Rightarrow> nat list" where
  "utf8_encode cp =
     (if cp < 0x80 then [cp]
      else if cp < 0x800 then [0xC0 + cp div 0x40, 0x80 + cp mod 0x40]
      else if cp < 0x10000 then
        [0xE0 + cp div 0x1000, 0x80 + cp div 0x40 mod 0x40, 0x80 + cp mod 0x40]
      else
        [0xF0 + cp div 0x40000, 0x80 + cp div 0x1000 mod 0x40, 0x80 + cp div 0x40 mod 0x40,
         0x80 + cp mod 0x40])"

definition isContinuation :: "nat \<Rightarrow> bool" where
  "isContinuation b \<longleftrightarrow> 0x80 \<le> b \<and> b \<le> 0xBF"

definition second_byte_ok :: "nat \<Rightarrow> nat \<Rightarrow> bool" where
  "second_byte_ok b0 b1 \<longleftrightarrow>
     (if b0 = 0xE0 then 0xA0 else if b0 = 0xF0 then 0x90 else 0x80) \<le> b1 \<and>
     b1 \<le> (if b0 = 0xED then 0x9F else if b0 = 0xF4 then 0x8F else 0xBF)"

definition hex_upper :: "nat \<Rightarrow> jschar" where
  "hex_upper n = (if n < 10 then of_nat (0x30 + n) else of_nat (0x41 + (n - 10)))"

definition hex_lower :: "nat \<Rightarrow> jschar" where
  "hex_lower n = (if n < 10 then of_nat (0x30 + n) else of_nat (0x61 + (n - 10)))"

definition hex_value :: "nat \<Rightarrow> nat option" where
  "hex_value c =
     (if 0x30 \<le> c \<and> c \<le> 0x39 then Some (c - 0x30)
      else if 0x41 \<le> c \<and> c \<le> 0x46 then Some (c - 0x41 + 10)
      else if 0x61 \<le> c \<and> c \<le> 0x66 then Some (c - 0x61 + 10)
      else None)"

definition percent_byte :: "nat \<Rightarrow> jsstring" where
  "percent_byte b = [ch CHR ''%'', hex_upper (b div 16), hex_upper (b mod 16)]"

definition isAlnum :: "jschar \<Rightarrow> bool" where
  "isAlnum c \<longleftrightarrow> (0x30 \<le> c \<and> c \<le> 0x39) \<or> (0x41 \<le> c \<and> c \<le> 0x5A) \<or> (0x61 \<le> c \<and> c \<le> 0x7A)"

definition uriUnreserved :: "jschar \<Rightarrow> bool" where
  "uriUnreserved c \<longleftrightarrow> isAlnum c \<or> c \<in> set (lit ''-_.!~*'' @ [0x27] @ lit ''()'')"

fun encodeURIComponent :: "jsstring \<Rightarrow> js_error + jsstring" where
  "encodeURIComponent [] = Inr []"
| "encodeURIComponent (c # cs) =
     (if uriUnreserved c then
        (case encodeURIComponent cs of Inl e \<Rightarrow> Inl e | Inr r \<Rightarrow> Inr (c # r))
      else if isTrailSurrogate c then Inl URIError
      else if isLeadSurrogate c then
        (case cs of
           [] \<Rightarrow> Inl URIError
         | d # ds \<Rightarrow>
             if isTrailSurrogate d then
               (case encodeURIComponent ds of
                  Inl e \<Rightarrow> Inl e
                | Inr r \<Rightarrow> Inr (concat (map percent_byte (utf8_encode (pair_code_point c d))) @ r))
             else Inl URIError)
      else
        (case encodeURIComponent cs of
           Inl e \<Rightarrow> Inl e
         | Inr r \<Rightarrow> Inr (concat (map percent_byte (utf8_encode (unat c))) @ r)))"

fun take_escapes :: "nat \<Rightarrow> jsstring \<Rightarrow> (nat list \<times> jsstring) option" where
  "take_escapes 0 s = Some ([], s)"
| "take_escapes (Suc n) (p # h1 # h2 # s) =
     (if p = ch CHR ''%'' then
        (case (hex_value (unat h1), hex_value (unat h2)) of
           (Some a, Some b) \<Rightarrow>
             (case take_escapes n s of
                None \<Rightarrow> None
              | Some (bs, r) \<Rightarrow> Some ((a * 16 + b) # bs, r))
         | _ \<Rightarrow> None)
      else None)"
| "take_escapes (Suc n) s = None"

definition utf8_code_point :: "nat list \<Rightarrow> nat option" where
  "utf8_code_point bs =
     (case bs of
        [b0, b1] \<Rightarrow>
          if 0xC2 \<le> b0 \<and> b0 \<le> 0xDF \<and> isContinuation b1
          then Some ((b0 - 0xC0) * 0x40 + (b1 - 0x80)) else None
      | [b0, b1, b2] \<Rightarrow>
          if 0xE0 \<le> b0 \<and> b0 \<le> 0xEF \<and> second_byte_ok b0 b1 \<and> isContinuation b2
          then Some ((b0 - 0xE0) * 0x1000 + (b1 - 0x80) * 0x40 + (b2 - 0x80)) else None
      | [b0, b1, b2, b3] \<Rightarrow>
          if 0xF0 \<le> b0 \<and> b0 \<le> 0xF4 \<and> second_byte_ok b0 b1 \<and> isContinuation b2 \<and>
             isContinuation b3
          then Some ((b0 - 0xF0) * 0x40000 + (b1 - 0x80) * 0x1000 + (b2 - 0x80) * 0x40 + (b3 - 0x80))
          else None
      | _ \<Rightarrow> None)"

definition sequence_length :: "nat \<Rightarrow> nat" where
  "sequence_length b =
     (if b < 0x80 then 1 else if b < 0xC0 then 0 else if b < 0xE0 then 2
      else if b < 0xF0 then 3 else if b < 0xF8 then 4 else 0)"

lemma take_escapes_length:
  "take_escapes n s = Some (bs, r) \<Longrightarrow> length r + 3 * n = length s"
  by (induction n s arbitrary: bs r rule: take_escapes.induct)
     (auto split: if_splits option.splits prod.splits)

function decodeURIComponent :: "jsstring \<Rightarrow> js_error + jsstring" where
  "decodeURIComponent [] = Inr []"
| "decodeURIComponent (c # cs) =
     (if c \<noteq> ch CHR ''%'' then
        (case decodeURIComponent cs of Inl e \<Rightarrow> Inl e | Inr r \<Rightarrow> Inr (c # r))
      else
        (case take_escapes 1 (c # cs) of
           None \<Rightarrow> Inl URIError
         | Some (first, s1) \<Rightarrow>
             let b = hd first in
             if b < 0x80 then
               (case decodeURIComponent s1 of Inl e \<Rightarrow> Inl e | Inr r \<Rightarrow> Inr (of_nat b # r))
             else if sequence_length b = 0 then Inl URIError
             else
               (case take_escapes (sequence_length b - 1) s1 of
                  None \<Rightarrow> Inl URIError
                | Some (others, s2) \<Rightarrow>
                    (case utf8_code_point (b # others) of
                       None \<Rightarrow> Inl URIError
                     | Some cp \<Rightarrow>
                         (case decodeURIComponent s2 of
                            Inl e \<Rightarrow> Inl e
                          | Inr r \<Rightarrow> Inr (utf16_encode cp @ r))))))"
  by pat_completeness auto

termination
  by (relation "measure length")
     (auto dest!: take_escapes_length simp del: take_escapes.simps)

section \<open>URLSearchParams\<close>

text \<open>
  \<open>URLSearchParams\<close> follows the URL standard. Its arguments are converted to scalar
  value strings (a lone surrogate becomes U+FFFD). The constructor drops one leading
  question mark and parses the rest as \<open>application/x-www-form-urlencoded\<close>: the UTF-8
  bytes are split on \<open>&\<close>, empty pieces are dropped, a piece is split at its first
  \<open>=\<close>, \<open>+\<close> becomes a space, percent escapes are decoded and the bytes are decoded as
  UTF-8 without a byte order mark, ill-formed sequences giving U+FFFD. The object is the
  list of its name-value pairs; \<open>usp_get\<close>, \<open>usp_set\<close>, \<open>usp_delete\<close> and \<open>usp_toString\<close>
  are its methods \<open>get\<close>, \<open>set\<close>, \<open>delete\<close> and the serializer that a template literal
  calls.
\<close>

fun to_scalar_values :: "jsstring \<Rightarrow> nat list" where
  "to_scalar_values [] = []"
| "to_scalar_values (c # cs) =
     (if isLeadSurrogate c then
        (case cs of
           [] \<Rightarrow> [0xFFFD]
         | d # ds \<Rightarrow>
             if isTrailSurrogate d then pair_code_point c d # to_scalar_values ds
             else 0xFFFD # to_scalar_values cs)
      else if isTrailSurrogate c then 0xFFFD # to_scalar_values cs
      else unat c # to_scalar_values cs)"

definition USVString :: "jsstring \<Rightarrow> jsstring" where
  "USVString s = concat (map utf16_encode (to_scalar_values s))"

definition utf8_bytes :: "jsstring \<Rightarrow> nat list" where
  "utf8_bytes s = concat (map utf8_encode (to_scalar_values s))"

definition utf8_decode_one :: "nat list \<Rightarrow> nat \<times> nat" where
  "utf8_decode_one bs =
     (case bs of
        [] \<Rightarrow> (0xFFFD, 0)
      | b0 # r0 \<Rightarrow>
          if b0 < 0x80 then (b0, 1)
          else if b0 < 0xC2 then (0xFFFD, 1)
          else if b0 < 0xE0 then
            (case r0 of
               [] \<Rightarrow> (0xFFFD, 1)
             | b1 # r1 \<Rightarrow>
                 if isContinuation b1 then ((b0 - 0xC0) * 0x40 + (b1 - 0x80), 2)
                 else (0xFFFD, 1))
          else if b0 < 0xF0 then
            (case r0 of
               [] \<Rightarrow> (0xFFFD, 1)
             | b1 # r1 \<Rightarrow>
                 if second_byte_ok b0 b1 then
                   (case r1 of
                      [] \<Rightarrow> (0xFFFD, 2)
                    | b2 # r2 \<Rightarrow>
                        if isContinuation b2
                        then ((b0 - 0xE0) * 0x1000 + (b1 - 0x80) * 0x40 + (b2 - 0x80), 3)
                        else (0xFFFD, 2))
                 else (0xFFFD, 1))
          else if b0 < 0xF5 then
            (case r0 of
               [] \<Rightarrow> (0xFFFD, 1)
             | b1 # r1 \<Rightarrow>
                 if second_byte_ok b0 b1 then
                   (case r1 of
                      [] \<Rightarrow> (0xFFFD, 2)
                    | b2 # r2 \<Rightarrow>
                        if isContinuation b2 then
                          (case r2 of
                             [] \<Rightarrow> (0xFFFD, 3)
                           | b3 # r3 \<Rightarrow>
                               if isContinuation b3
                               then ((b0 - 0xF0) * 0x40000 + (b1 - 0x80) * 0x1000 +
                                     (b2 - 0x80) * 0x40 + (b3 - 0x80), 4)
                               else (0xFFFD, 3))
                        else (0xFFFD, 2))
                 else (0xFFFD, 1))
          else (0xFFFD, 1))"

lemma utf8_decode_one_consumes: "bs \<noteq> [] \<Longrightarrow> 0 < snd (utf8_decode_one bs)"
  by (auto simp: utf8_decode_one_def split: list.splits)

function utf8_decode :: "nat list \<Rightarrow> jsstring" where
  "utf8_decode bs =
     (if bs = [] then []
      else utf16_encode (fst (utf8_decode_one bs)) @ utf8_decode (drop (snd (utf8_decode_one bs)) bs))"
  by pat_completeness auto

termination
  by (relation "measure length") (auto simp: utf8_decode_one_consumes)

declare utf8_decode.simps [simp del]

fun percent_decode :: "nat list \<Rightarrow> nat list" where
  "percent_decode [] = []"
| "percent_decode (b # bs) =
     (if b = 0x25 then
        (case bs of
           h1 # h2 # rest \<Rightarrow>
             (case (hex_value h1, hex_value h2) of
                (Some a, Some c) \<Rightarrow> (a * 16 + c) # percent_decode rest
              | _ \<Rightarrow> b # percent_decode bs)
         | _ \<Rightarrow> b # percent_decode bs)
      else b # percent_decode bs)"

type_synonym params = "(jsstring \<times> jsstring) list"

definition plus_to_space :: "nat list \<Rightarrow> nat list" where
  "plus_to_space bs = map (\<lambda>b. if b = 0x2B then 0x20 else b) bs"

definition urlencoded_parse_pair :: "nat list \<Rightarrow> jsstring \<times> jsstring" where
  "urlencoded_parse_pair bytes =
     (let name = takeWhile (\<lambda>b. b \<noteq> 0x3D) bytes;
          val = drop 1 (dropWhile (\<lambda>b. b \<noteq> 0x3D) bytes)
      in (utf8_decode (percent_decode (plus_to_space name)),
          utf8_decode (percent_decode (plus_to_space val))))"

definition urlencoded_parse :: "nat list \<Rightarrow> params" where
  "urlencoded_parse input =
     map urlencoded_parse_pair (filter (\<lambda>bytes. bytes \<noteq> []) (split_on 0x26 input))"

definition URLSearchParams :: "jsstring \<Rightarrow> params" where
  "URLSearchParams init =
     urlencoded_parse (utf8_bytes (case init of c # cs \<Rightarrow> if c = ch CHR ''?'' then cs else init
                                   | [] \<Rightarrow> init))"

definition urlencoded_safe :: "nat \<Rightarrow> bool" where
  "urlencoded_safe b \<longleftrightarrow>
     (0x30 \<le> b \<and> b \<le> 0x39) \<or> (0x41 \<le> b \<and> b \<le> 0x5A) \<or> (0x61 \<le> b \<and> b \<le> 0x7A) \<or>
     b = 0x2A \<or> b = 0x2D \<or> b = 0x2E \<or> b = 0x5F"

definition urlencoded_byte :: "nat \<Rightarrow> jsstring" where
  "urlencoded_byte b =
     (if b = 0x20 then [ch CHR ''+'']
      else if urlencoded_safe b then [of_nat b]
      else percent_byte b)"

definition urlencoded_string :: "jsstring \<Rightarrow> jsstring" where
  "urlencoded_string s = concat (map urlencoded_byte (utf8_bytes s))"

fun join_with :: "'a \<Rightarrow> 'a list list \<Rightarrow> 'a list" where
  "join_with sep [] = []"
| "join_with sep [x] = x"
| "join_with sep (x # y # r) = x @ sep # join_with sep (y # r)"

definition urlencoded_pair :: "jsstring \<times> jsstring \<Rightarrow> jsstring" where
  "urlencoded_pair p = urlencoded_string (fst p) @ ch CHR ''='' # urlencoded_string (snd p)"

definition usp_toString :: "params \<Rightarrow> jsstring" where
  "usp_toString ps = join_with (ch CHR ''&'') (map urlencoded_pair ps)"

definition usp_get :: "jsstring \<Rightarrow> params \<Rightarrow> jsstring option" where
  "usp_get name ps = map_of ps (USVString name)"

fun replace_first :: "jsstring \<Rightarrow> jsstring \<Rightarrow> params \<Rightarrow> params" where
  "replace_first n v [] = []"
| "replace_first n v (p # ps) =
     (if fst p = n then (n, v) # filter (\<lambda>q. fst q \<noteq> n) ps else p # replace_first n v ps)"

definition usp_set :: "jsstring \<Rightarrow> jsstring \<Rightarrow> params \<Rightarrow> params" where
  "usp_set name val ps =
     (let n = USVString name; v = USVString val in
      if n \<in> fst ` set ps then replace_first n v ps else ps @ [(n, v)])"

definition usp_delete :: "jsstring \<Rightarrow> params \<Rightarrow> params" where
  "usp_delete name ps = filter (\<lambda>p. fst p \<noteq> USVString name) ps"

section \<open>JSON.stringify\<close>

text \<open>
  \<open>JSON.stringify\<close> of an array of objects whose property values are strings, which is
  what \<open>getInputData\<close> returns: no indentation, the properties in the order of their
  creation, every string quoted by \<open>QuoteJSONString\<close> of ECMA-262.
\<close>

definition unicode_escape :: "jschar \<Rightarrow> jsstring" where
  "unicode_escape c =
     [0x5C, 0x75, hex_lower (unat c div 0x1000), hex_lower (unat c div 0x100 mod 0x10),
      hex_lower (unat c div 0x10 mod 0x10), hex_lower (unat c mod 0x10)]"

fun quote_body :: "jsstring \<Rightarrow> jsstring" where
  "quote_body [] = []"
| "quote_body (c # cs) =
     (if c = 0x08 then [0x5C, ch CHR ''b''] @ quote_body cs
      else if c = 0x09 then [0x5C, ch CHR ''t''] @ quote_body cs
      else if c = 0x0A then [0x5C, ch CHR ''n''] @ quote_body cs
      else if c = 0x0C then [0x5C, ch CHR ''f''] @ quote_body cs
      else if c = 0x0D then [0x5C, ch CHR ''r''] @ quote_body cs
      else if c = 0x22 then [0x5C, 0x22] @ quote_body cs
      else if c = 0x5C then [0x5C, 0x5C] @ quote_body cs
      else if c < 0x20 then unicode_escape c @ quote_body cs
      else if isLeadSurrogate c then
        (case cs of
           [] \<Rightarrow> unicode_escape c
         | d # ds \<Rightarrow>
             if isTrailSurrogate d then c # d # quote_body ds
             else unicode_escape c @ quote_body cs)
      else if isTrailSurrogate c then unicode_escape c @ quote_body cs
      else c # quote_body cs)"

definition QuoteJSONString :: "jsstring \<Rightarrow> jsstring" where
  "QuoteJSONString s = 0x22 # quote_body s @ [0x22]"

definition stringify_property :: "jsstring \<times> jsstring \<Rightarrow> jsstring" where
  "stringify_property p = QuoteJSONString (fst p) @ ch CHR '':'' # QuoteJSONString (snd p)"

definition stringify_object :: "jsobject \<Rightarrow> jsstring" where
  "stringify_object obj =
     ch CHR ''{'' # join_with (ch CHR '','') (map stringify_property obj) @ [ch CHR ''}'']"

definition JSON_stringify :: "jsobject list \<Rightarrow> jsstring" where
  "JSON_stringify arr =
     ch CHR ''['' # join_with (ch CHR '','') (map stringify_object arr) @ [ch CHR '']'']"

section \<open>JSON.parse\<close>

text \<open>
  \<open>JSON.parse\<close> without a reviver: the text is split into the tokens of the JSON grammar
  and the tokens are read by a pushdown automaton; a text that is not one JSON value
  raises a \<open>SyntaxError\<close>. A number is kept as its lexeme. An object is the list of its
  properties in the order of their first occurrence, a repeated key taking its last
  value; the reordering of keys that are array indices is not modelled (the keys of an
  entry are \<open>name\<close> and \<open>color\<close>).
\<close>

datatype json =
    JNull | JBool bool | JNumber jsstring | JString jsstring
  | JArray "json list" | JObject "(jsstring \<times> json) list"

datatype token =
    TLBrace | TRBrace | TLBracket | TRBracket | TColon | TComma
  | TString jsstring | TNumber jsstring | TTrue | TFalse | TNull

definition simple_escape :: "jschar \<Rightarrow> jschar option" where
  "simple_escape e =
     (if e = 0x22 then Some 0x22
      else if e = 0x5C then Some 0x5C
      else if e = 0x2F then Some 0x2F
      else if e = ch CHR ''b'' then Some 0x08
      else if e = ch CHR ''f'' then Some 0x0C
      else if e = ch CHR ''n'' then Some 0x0A
      else if e = ch CHR ''r'' then Some 0x0D
      else if e = ch CHR ''t'' then Some 0x09
      else None)"

definition hex4 :: "jschar \<Rightarrow> jschar \<Rightarrow> jschar \<Rightarrow> jschar \<Rightarrow> jschar option" where
  "hex4 h1 h2 h3 h4 =
     (case (hex_value (unat h1), hex_value (unat h2), hex_value (unat h3), hex_value (unat h4)) of
        (Some a, Some b, Some c, Some d) \<Rightarrow> Some (of_nat (((a * 16 + b) * 16 + c) * 16 + d))
      | _ \<Rightarrow> None)"

definition prepend :: "jschar \<Rightarrow> (jsstring \<times> jsstring) option \<Rightarrow> (jsstring \<times> jsstring) option" where
  "prepend c r = (case r of None \<Rightarrow> None | Some (s, t) \<Rightarrow> Some (c # s, t))"

fun lex_string :: "jsstring \<Rightarrow> (jsstring \<times> jsstring) option" where
  "lex_string [] = None"
| "lex_string (c # cs) =
     (if c = 0x22 then Some ([], cs)
      else if c = 0x5C then
        (case cs of
           [] \<Rightarrow> None
         | e # r \<Rightarrow>
             if e = ch CHR ''u'' then
               (case r of
                  h1 # h2 # h3 # h4 # r' \<Rightarrow>
                    (case hex4 h1 h2 h3 h4 of
                       None \<Rightarrow> None
                     | Some u \<Rightarrow> prepend u (lex_string r'))
                | _ \<Rightarrow> None)
             else
               (case simple_escape e of
                  None \<Rightarrow> None
                | Some u \<Rightarrow> prepend u (lex_string r)))
      else if c < 0x20 then None
      else prepend c (lex_string cs))"

definition isDigit :: "jschar \<Rightarrow> bool" where
  "isDigit c \<longleftrightarrow> 0x30 \<le> c \<and> c \<le> 0x39"

text \<open>number = [ minus ] int [ frac ] [ exp ]\<close>

definition number_sign :: "jsstring \<Rightarrow> jsstring" where
  "number_sign s = (if take 1 s = [ch CHR ''-''] then [ch CHR ''-''] else [])"

definition number_int :: "jsstring \<Rightarrow> jsstring" where
  "number_int s = (if take 1 s = [0x30] then [0x30] else takeWhile isDigit s)"

definition number_frac :: "jsstring \<Rightarrow> jsstring" where
  "number_frac s =
     (if take 1 s = [ch CHR ''.''] then ch CHR ''.'' # takeWhile isDigit (drop 1 s) else [])"

definition number_exp :: "jsstring \<Rightarrow> jsstring" where
  "number_exp s =
     (if take 1 s = [ch CHR ''e''] \<or> take 1 s = [ch CHR ''E''] then
        (let mark = (if take 1 (drop 1 s) = [ch CHR ''+''] \<or> take 1 (drop 1 s) = [ch CHR ''-'']
                     then take 2 s else take 1 s)
         in mark @ takeWhile isDigit (drop (length mark) s))
      else [])"

definition lex_number :: "jsstring \<Rightarrow> (jsstring \<times> jsstring) option" where
  "lex_number s =
     (let sign = number_sign s;
          s1 = drop (length sign) s;
          int_part = number_int s1;
          s2 = drop (length int_part) s1;
          frac = number_frac s2;
          s3 = drop (length frac) s2;
          exp_part = number_exp s3;
          lexeme = sign @ int_part @ frac @ exp_part
      in if int_part = [] \<or> length frac = 1 \<or> (exp_part \<noteq> [] \<and> \<not> isDigit (last exp_part))
         then None
         else Some (lexeme, drop (length lexeme) s))"

definition isJSONWhiteSpace :: "jschar \<Rightarrow> bool" where
  "isJSONWhiteSpace c \<longleftrightarrow> c = 0x20 \<or> c = 0x09 \<or> c = 0x0A \<or> c = 0x0D"

definition cons_token :: "token \<Rightarrow> token list option \<Rightarrow> token list option" where
  "cons_token t r = (case r of None \<Rightarrow> None | Some ts \<Rightarrow> Some (t # ts))"

lemma prepend_length: "prepend c r = Some (s, t) \<Longrightarrow> \<exists>s'. r = Some (s', t)"
  by (auto simp: prepend_def split: option.splits)

lemma lex_string_length: "lex_string s = Some (x, r) \<Longrightarrow> length r < length s"
proof (induction s arbitrary: x r rule: lex_string.induct)
  case 1
  then show ?case by simp
next
  case (2 c cs)
  show ?case
  proof (cases "c = 0x22")
    case True
    with "2.prems" show ?thesis by simp
  next
    case q: False
    show ?thesis
    proof (cases "c = 0x5C")
      case True
      from "2.prems" q True obtain e t where cs: "cs = e # t"
        by (cases cs) auto
      show ?thesis
      proof (cases "e = ch CHR ''u''")
        case u: True
        from "2.prems" q True cs u obtain h1 h2 h3 h4 r' v where
          t: "t = h1 # h2 # h3 # h4 # r'" "hex4 h1 h2 h3 h4 = Some v"
             "prepend v (lex_string r') = Some (x, r)"
          by (auto split: list.splits option.splits)
        from prepend_length[OF t(3)] obtain s' where "lex_string r' = Some (s', r)" by blast
        from "2.IH"(1)[OF q True cs u t(1) refl refl refl t(2) this] show ?thesis
          by (simp add: cs t(1))
      next
        case nu: False
        from "2.prems" q True cs nu obtain v where
          v: "simple_escape e = Some v" "prepend v (lex_string t) = Some (x, r)"
          by (auto split: option.splits)
        from prepend_length[OF v(2)] obtain s' where "lex_string t = Some (s', r)" by blast
        from "2.IH"(2)[OF q True cs nu v(1) this] show ?thesis
          by (simp add: cs)
      qed
    next
      case b: False
      with "2.prems" q have c: "\<not> c < 0x20" "prepend c (lex_string cs) = Some (x, r)"
        by (auto split: if_splits)
      from prepend_length[OF c(2)] obtain s' where "lex_string cs = Some (s', r)" by blast
      from "2.IH"(3)[OF q b c(1) this] show ?thesis by simp
    qed
  qed
qed

lemma lex_number_length: "lex_number s = Some (n, r) \<Longrightarrow> length r < length s"
proof -
  assume a: "lex_number s = Some (n, r)"
  have s: "s \<noteq> []"
  proof
    assume "s = []"
    then have "lex_number s = None"
      by (simp add: lex_number_def number_sign_def number_int_def)
    with a show False by simp
  qed
  from a have "n \<noteq> [] \<and> r = drop (length n) s"
    unfolding lex_number_def Let_def by (auto split: if_splits)
  with s show ?thesis by (cases n; cases s) auto
qed

function json_lex :: "jsstring \<Rightarrow> token list option" where
  "json_lex [] = Some []"
| "json_lex (c # cs) =
     (if isJSONWhiteSpace c then json_lex cs
      else if c = ch CHR ''{'' then cons_token TLBrace (json_lex cs)
      else if c = ch CHR ''}'' then cons_token TRBrace (json_lex cs)
      else if c = ch CHR ''['' then cons_token TLBracket (json_lex cs)
      else if c = ch CHR '']'' then cons_token TRBracket (json_lex cs)
      else if c = ch CHR '':'' then cons_token TColon (json_lex cs)
      else if c = ch CHR '','' then cons_token TComma (json_lex cs)
      else if c = 0x22 then
        (case lex_string cs of
           None \<Rightarrow> None
         | Some (s, r) \<Rightarrow> cons_token (TString s) (json_lex r))
      else if c = ch CHR ''-'' \<or> isDigit c then
        (case lex_number (c # cs) of
           None \<Rightarrow> None
         | Some (n, r) \<Rightarrow> cons_token (TNumber n) (json_lex r))
      else if take 4 (c # cs) = lit ''true'' then cons_token TTrue (json_lex (drop 3 cs))
      else if take 5 (c # cs) = lit ''false'' then cons_token TFalse (json_lex (drop 4 cs))
      else if take 4 (c # cs) = lit ''null'' then cons_token TNull (json_lex (drop 3 cs))
      else None)"
  by pat_completeness auto

termination
  by (relation "measure length")
     (auto dest: lex_string_length lex_number_length simp: less_Suc_eq_le)

datatype frame =
    ArrayFrame "json list"
  | ObjectFrame "(jsstring \<times> json) list" "jsstring option"

datatype expect =
    ExpectValue | ExpectValueOrClose | ExpectKeyOrClose | ExpectKey | ExpectColon
  | ExpectCommaOrClose | Done json

type_synonym config = "frame list \<times> expect"

fun deliver :: "json \<Rightarrow> frame list \<Rightarrow> config option" where
  "deliver v [] = Some ([], Done v)"
| "deliver v (ArrayFrame vs # st) = Some (ArrayFrame (vs @ [v]) # st, ExpectCommaOrClose)"
| "deliver v (ObjectFrame ps (Some k) # st) =
     Some (ObjectFrame (set_prop k v ps) None # st, ExpectCommaOrClose)"
| "deliver v (ObjectFrame ps None # st) = None"

fun value_token :: "frame list \<Rightarrow> token \<Rightarrow> config option" where
  "value_token st (TString s) = deliver (JString s) st"
| "value_token st (TNumber n) = deliver (JNumber n) st"
| "value_token st TTrue = deliver (JBool True) st"
| "value_token st TFalse = deliver (JBool False) st"
| "value_token st TNull = deliver JNull st"
| "value_token st TLBracket = Some (ArrayFrame [] # st, ExpectValueOrClose)"
| "value_token st TLBrace = Some (ObjectFrame [] None # st, ExpectKeyOrClose)"
| "value_token st _ = None"

fun close_token :: "frame list \<Rightarrow> token \<Rightarrow> config option" where
  "close_token (ArrayFrame vs # st) TRBracket = deliver (JArray vs) st"
| "close_token (ObjectFrame ps None # st) TRBrace = deliver (JObject ps) st"
| "close_token _ _ = None"

fun key_token :: "frame list \<Rightarrow> token \<Rightarrow> config option" where
  "key_token (ObjectFrame ps None # st) (TString k) = Some (ObjectFrame ps (Some k) # st, ExpectColon)"
| "key_token _ _ = None"

fun comma_token :: "frame list \<Rightarrow> config option" where
  "comma_token (ArrayFrame vs # st) = Some (ArrayFrame vs # st, ExpectValue)"
| "comma_token (ObjectFrame ps None # st) = Some (ObjectFrame ps None # st, ExpectKey)"
| "comma_token _ = None"

fun step :: "config \<Rightarrow> token \<Rightarrow> config option" where
  "step (st, ExpectValue) t = value_token st t"
| "step (st, ExpectValueOrClose) t = (if t = TRBracket then close_token st t else value_token st t)"
| "step (st, ExpectKeyOrClose) t = (if t = TRBrace then close_token st t else key_token st t)"
| "step (st, ExpectKey) t = key_token st t"
| "step (st, ExpectColon) t = (if t = TColon then Some (st, ExpectValue) else None)"
| "step (st, ExpectCommaOrClose) t = (if t = TComma then comma_token st else close_token st t)"
| "step (st, Done v) t = None"

fun run :: "config \<Rightarrow> token list \<Rightarrow> config option" where
  "run c [] = Some c"
| "run c (t # ts) = (case step c t of None \<Rightarrow> None | Some c' \<Rightarrow> run c' ts)"

definition JSON_parse :: "jsstring \<Rightarrow> js_error + json" where
  "JSON_parse text =
     (case json_lex text of
        None \<Rightarrow> Inl SyntaxError
      | Some ts \<Rightarrow>
          (case run ([], ExpectValue) ts of
             Some ([], Done v) \<Rightarrow> Inr v
           | _ \<Rightarrow> Inl SyntaxError))"

section \<open>The page\<close>

text \<open>
  The state of the page that the script reads and writes: the path and the query of
  \<open>location\<close>, the session history (the URLs pushed so far), the values of the two text
  areas, the children of the element \<open>.table-container\<close> (\<open>None\<close> when they are the result
  of markup that the parser above does not cover) and the value of the contrast control.
  The page has one element of the class \<open>table-container\<close>.

  \<open>history.pushState({}, '', `${location.pathname}?${urlParams}`)\<close> resolves its URL
  against the document's: the path is kept, and the query is the text after the question
  mark as the URL parser's query state leaves it (tab and newline removed, cut at \<open>#\<close>,
  code points outside the query set percent-encoded). \<open>location.search\<close> is then the
  question mark and that query, or the empty string when the query is empty.
  \<open>pushState\<close> takes the query text.
\<close>

record page =
  location_pathname :: jsstring
  location_search :: jsstring
  history_entries :: "jsstring list"
  xInput_value :: jsstring
  yInput_value :: jsstring
  table_container :: "node list option"
  contrast_value :: real

definition url_query_state :: "jsstring \<Rightarrow> jsstring" where
  "url_query_state input =
     concat (map (\<lambda>cp. if cp \<le> 0x20 \<or> cp = 0x22 \<or> cp = 0x23 \<or> cp = 0x27 \<or> cp = 0x3C \<or>
                           cp = 0x3E \<or> 0x7E < cp
                        then concat (map percent_byte (utf8_encode cp)) else [of_nat cp])
       (to_scalar_values
          (takeWhile (\<lambda>c. c \<noteq> ch CHR ''#'')
             (filter (\<lambda>c. c \<noteq> 0x09 \<and> c \<noteq> 0x0A \<and> c \<noteq> 0x0D) input))))"

definition pushState :: "jsstring \<Rightarrow> page \<Rightarrow> page" where
  "pushState query st =
     (let q = url_query_state query in
      st\<lparr> location_search := (if q = [] then [] else ch CHR ''?'' # q),
          history_entries := history_entries st @ [location_pathname st @ ch CHR ''?'' # query] \<rparr>)"

definition setQueryParams :: "jsobject list option \<Rightarrow> jsobject list \<Rightarrow> page \<Rightarrow> js_error + page" where
  "setQueryParams xAxisData yAxisData st =
     (case xAxisData of
        None \<Rightarrow> Inr st
      | Some x \<Rightarrow>
          if length x = 0 then Inr st
          else
            let urlParams = URLSearchParams (location_search st) in
            (case encodeURIComponent (JSON_stringify x) of
               Inl e \<Rightarrow> Inl e
             | Inr encoded_x \<Rightarrow>
                 let urlParams = usp_set (lit ''xAxisData'') encoded_x urlParams in
                 if JSON_stringify x \<noteq> JSON_stringify yAxisData then
                   (case encodeURIComponent (JSON_stringify yAxisData) of
                      Inl e \<Rightarrow> Inl e
                    | Inr encoded_y \<Rightarrow>
                        Inr (pushState
                               (usp_toString (usp_set (lit ''yAxisData'') encoded_y urlParams)) st))
                 else
                   Inr (pushState (usp_toString (usp_delete (lit ''yAxisData'') urlParams)) st)))"

record colorsObject =
  colors_xAxisData :: json
  colors_yAxisData :: json

text \<open>The body of the \<open>forEach\<close> of \<open>getDataFromQueryParams\<close>:
  \<open>JSON.parse(decodeURIComponent(urlParams.get(axis)))\<close>, where \<open>get\<close> returns \<open>null\<close> for a
  missing parameter and \<open>decodeURIComponent\<close> converts it to the string \<open>null\<close>. An
  exception leaves the function at once.\<close>

definition read_axis :: "params \<Rightarrow> jsstring \<Rightarrow> js_error + json" where
  "read_axis urlParams axis =
     (case decodeURIComponent
             (case usp_get axis urlParams of None \<Rightarrow> lit ''null'' | Some s \<Rightarrow> s) of
        Inl e \<Rightarrow> Inl e
      | Inr text \<Rightarrow> JSON_parse text)"

definition getDataFromQueryParams :: "page \<Rightarrow> js_error + colorsObject" where
  "getDataFromQueryParams st =
     (let urlParams = URLSearchParams (location_search st) in
      case read_axis urlParams (lit ''xAxisData'') of
        Inl e \<Rightarrow> Inl e
      | Inr x \<Rightarrow>
          (case read_axis urlParams (lit ''yAxisData'') of
             Inl e \<Rightarrow> Inl e
           | Inr y \<Rightarrow> Inr \<lparr> colors_xAxisData = x, colors_yAxisData = y \<rparr>))"

text \<open>The truth value of a parsed JSON value in a conditional; \<open>handlePopstate_axes\<close> is the
  pair of axes that \<open>handlePopstate\<close> (and \<open>init\<close>) reads from the URL and hands to
  \<open>hydrateForm\<close> and \<open>writeTableToDOM\<close>.\<close>

fun truthy :: "json \<Rightarrow> bool" where
  "truthy JNull = False"
| "truthy (JBool b) = b"
| "truthy (JNumber n) =
     list_ex (\<lambda>c. 0x31 \<le> c \<and> c \<le> 0x39)
       (takeWhile (\<lambda>c. c \<noteq> ch CHR ''e'' \<and> c \<noteq> ch CHR ''E'') n)"
| "truthy (JString s) = (s \<noteq> [])"
| "truthy (JArray vs) = True"
| "truthy (JObject ps) = True"

definition handlePopstate_axes :: "page \<Rightarrow> js_error + json \<times> json" where
  "handlePopstate_axes st =
     (case getDataFromQueryParams st of
        Inl e \<Rightarrow> Inl e
      | Inr dataFromParams \<Rightarrow>
          let xAxisData = colors_xAxisData dataFromParams;
              yAxisData = (if truthy (colors_yAxisData dataFromParams)
                           then colors_yAxisData dataFromParams else xAxisData)
          in Inr (xAxisData, yAxisData))"



section \<open>Auxiliary definitions for the properties\<close>

text \<open>What the body of the outer \<open>forEach\<close> of \<open>getInputData\<close> pushes for one line.\<close>

definition line_entries :: "tinycolor \<Rightarrow> jsstring \<Rightarrow> jsobject list" where
  "line_entries tc line =
     (case parse_line tc line of (data, lineHasValidColor) \<Rightarrow>
        if length data \<noteq> 0 \<and> lineHasValidColor then [data] else [])"

text \<open>The invariant of an entry: a valid \<open>color\<close>, and a \<open>name\<close> that trimming does not
  empty when there is one.\<close>

definition valid_entry :: "tinycolor \<Rightarrow> jsobject \<Rightarrow> bool" where
  "valid_entry tc e \<longleftrightarrow>
     (\<exists>c. get_prop (lit ''color'') e = Some c \<and> isValid tc c) \<and>
     (\<forall>n. get_prop (lit ''name'') e = Some n \<longrightarrow> trim n \<noteq> [])"

text \<open>The cleaning of a segment in the words of the specification: strip from the first
  semicolon to the end, then strip one trailing comma, then trim. It is compared with
  \<open>clean_item\<close>, which is what lines 21 and 22 of the script do.\<close>

definition spec_clean_item :: "jsstring \<Rightarrow> jsstring" where
  "spec_clean_item item =
     trim (remove_final_comma (takeWhile (\<lambda>c. c \<noteq> ch CHR '';'') item))"

text \<open>A color library for the concrete examples: three colors are valid, and the contrast
  ratio of two different colors is 4.4999 (that of \<open>#0d8764\<close> on \<open>#fff\<close> is about 4.49995).\<close>

definition example_tinycolor :: tinycolor where
  "example_tinycolor =
     \<lparr> isValid = (\<lambda>s. s = lit ''#fff'' \<or> s = lit ''#000'' \<or> s = lit ''#0d8764''),
       toHexString = (\<lambda>c. case c of None \<Rightarrow> lit ''#000000'' | Some s \<Rightarrow> s),
       readability = (\<lambda>a b. if a = b then 1 else 4.4999),
       mostReadable = (\<lambda>c cs. lit ''#000000'') \<rparr>"

text \<open>Notions for the properties of the table. Text and attribute values without markup:
  no \<open><\<close> and no \<open>&\<close> in a text, no double quote and no \<open>&\<close> in a value, and neither NUL
  nor CR; an entry without markup has such a color text, name, and hex strings. Then the
  tokens of the markup that each builder writes, the tree that the parser makes of them
  (\<open>insert_text\<close> appends a text to the children of a node as the parser does, merging it
  with a text before it), the rows and cells of a tree, and whether a cell is flagged.\<close>

definition plain_text :: "jsstring \<Rightarrow> bool" where
  "plain_text s \<longleftrightarrow> (\<forall>c \<in> set s. c \<noteq> 0x3C \<and> c \<noteq> 0x26 \<and> c \<noteq> 0x00 \<and> c \<noteq> 0x0D)"

definition plain_value :: "jsstring \<Rightarrow> bool" where
  "plain_value s \<longleftrightarrow> (\<forall>c \<in> set s. c \<noteq> 0x22 \<and> c \<noteq> 0x26 \<and> c \<noteq> 0x00 \<and> c \<noteq> 0x0D)"

definition name_tokens :: "jsobject \<Rightarrow> html_token list" where
  "name_tokens data =
     (case get_prop (lit ''name'') data of
        None \<Rightarrow> []
      | Some n \<Rightarrow>
          map Character (lit ''\<newline>              '') @
          [StartTag (lit ''div'') [(lit ''class'', lit ''color-name'')]] @
          map Character (lit ''\<newline>                '' @ n @ lit ''\<newline>              '') @
          [EndTag (lit ''div'')] @
          map Character (lit ''\<newline>              ''))"

definition header_style :: "tinycolor \<Rightarrow> jsobject \<Rightarrow> jsstring \<Rightarrow> jsstring" where
  "header_style tc data indent =
     lit ''\<newline>            --color: '' @ toHexString tc (get_prop (lit ''color'') data) @
     lit '';\<newline>            --text-color: '' @
     mostReadable tc (get_prop (lit ''color'') data) [lit ''#fff'', lit ''#000''] @
     lit '';\<newline>'' @ indent"

definition header_cell_tokens :: "tinycolor \<Rightarrow> jsobject \<Rightarrow> html_token list" where
  "header_cell_tokens tc data =
     map Character (lit ''\<newline>        '') @
     [StartTag (lit ''th'')
        [(lit ''scope'', lit ''col''), (lit ''style'', header_style tc data (lit ''        ''))]] @
     map Character (lit ''\<newline>          '') @
     [StartTag (lit ''span'') []] @
     map Character (lit ''\<newline>            '') @
     name_tokens data @
     map Character (lit ''\<newline>            '' @ interpolate (get_prop (lit ''color'') data) @
                    lit ''\<newline>          '') @
     [EndTag (lit ''span'')] @
     map Character (lit ''\<newline>        '') @
     [EndTag (lit ''th'')] @
     map Character (lit ''\<newline>      '')"

definition plain_entry :: "tinycolor \<Rightarrow> jsobject \<Rightarrow> bool" where
  "plain_entry tc data \<longleftrightarrow>
     plain_text (interpolate (get_prop (lit ''color'') data)) \<and>
     (\<forall>n. get_prop (lit ''name'') data = Some n \<longrightarrow> plain_text n) \<and>
     plain_value (toHexString tc (get_prop (lit ''color'') data)) \<and>
     plain_value (mostReadable tc (get_prop (lit ''color'') data) [lit ''#fff'', lit ''#000''])"

definition td_style :: "tinycolor \<Rightarrow> jsstring option \<Rightarrow> jsobject \<Rightarrow> jsstring" where
  "td_style tc compareColor data =
     lit ''\<newline>            --color-1: '' @ toHexString tc (get_prop (lit ''color'') data) @
     lit '';\<newline>            --color-2: '' @ toHexString tc compareColor @
     lit '';\<newline>            --hover-text-color: '' @
     mostReadable tc (get_prop (lit ''color'') data) [lit ''#fff'', lit ''#000''] @
     lit '';\<newline>        ''"

definition td_attributes :: "tinycolor \<Rightarrow> jsstring option \<Rightarrow> jsobject \<Rightarrow> attributes" where
  "td_attributes tc compareColor data =
     [(lit ''tabindex'', lit ''0''), (lit ''role'', lit ''button''),
      (lit ''style'', td_style tc compareColor data)]"

definition td_text :: "tinycolor \<Rightarrow> jsstring option \<Rightarrow> jsobject \<Rightarrow> jsstring" where
  "td_text tc compareColor data =
     lit ''\<newline>          '' @
     toFixed 2 (readability tc (get_prop (lit ''color'') data) compareColor) @
     lit ''\<newline>        ''"

definition td_tokens :: "tinycolor \<Rightarrow> jsstring option \<Rightarrow> jsobject \<Rightarrow> html_token list" where
  "td_tokens tc compareColor data =
     map Character (lit ''\<newline>        '') @
     [StartTag (lit ''td'') (td_attributes tc compareColor data)] @
     map Character (td_text tc compareColor data) @
     [EndTag (lit ''td'')] @
     map Character (lit ''\<newline>      '')"

definition row_header_attributes :: "tinycolor \<Rightarrow> jsobject \<Rightarrow> attributes" where
  "row_header_attributes tc data =
     [(lit ''scope'', lit ''row''),
      (lit ''style'',
       lit ''\<newline>            --color: '' @ toHexString tc (get_prop (lit ''color'') data) @
       lit '';\<newline>            --text-color: '' @
       mostReadable tc (get_prop (lit ''color'') data) [lit ''#fff'', lit ''#000''] @
       lit '';\<newline>          '')]"

definition data_row_tokens :: "tinycolor \<Rightarrow> jsobject list \<Rightarrow> jsobject \<Rightarrow> html_token list" where
  "data_row_tokens tc xAxisData data =
     map Character (lit ''\<newline>        '') @
     [StartTag (lit ''tr'') []] @
     map Character (lit ''\<newline>          '') @
     [StartTag (lit ''th'') (row_header_attributes tc data)] @
     map Character (lit ''\<newline>            '') @
     name_tokens data @
     map Character (lit ''\<newline>\<newline>            '' @ interpolate (get_prop (lit ''color'') data) @
                    lit ''\<newline>          '') @
     [EndTag (lit ''th'')] @
     map Character (lit ''\<newline>          '') @
     concat (map (td_tokens tc (get_prop (lit ''color'') data)) xAxisData) @
     map Character (lit ''\<newline>        '') @
     [EndTag (lit ''tr'')] @
     map Character (lit ''\<newline>      '')"

definition header_row_tokens :: "tinycolor \<Rightarrow> jsobject list \<Rightarrow> html_token list" where
  "header_row_tokens tc xAxisData =
     map Character (lit ''\<newline>      '') @
     [StartTag (lit ''tr'') []] @
     map Character (lit ''\<newline>        '') @
     [StartTag (lit ''td'') [], EndTag (lit ''td'')] @
     map Character (lit ''\<newline>        '') @
     concat (map (header_cell_tokens tc) xAxisData) @
     map Character (lit ''\<newline>      '') @
     [EndTag (lit ''tr'')] @
     map Character (lit ''\<newline>    '')"

definition table_tokens :: "tinycolor \<Rightarrow> jsobject list \<Rightarrow> jsobject list \<Rightarrow> html_token list" where
  "table_tokens tc xAxisData yAxisData =
     map Character (lit ''\<newline>      '') @
     [StartTag (lit ''table'') []] @
     map Character (lit ''\<newline>        '') @
     header_row_tokens tc xAxisData @
     map Character (lit ''\<newline>        '') @
     concat (map (data_row_tokens tc xAxisData) yAxisData) @
     map Character (lit ''\<newline>      '') @
     [EndTag (lit ''table'')] @
     map Character (lit ''\<newline>      '') @
     [StartTag (lit ''dialog'') [(lit ''id'', lit ''popover''), (lit ''aria-live'', lit ''polite'')],
      EndTag (lit ''dialog'')] @
     map Character (lit ''\<newline>    '')"

definition insert_text :: "jsstring \<Rightarrow> node list \<Rightarrow> node list" where
  "insert_text s children = foldl (\<lambda>k c. insert_character c k) children s"

definition add_name :: "jsobject \<Rightarrow> node list \<Rightarrow> node list" where
  "add_name data k =
     (case get_prop (lit ''name'') data of
        None \<Rightarrow> k
      | Some n \<Rightarrow>
          insert_text (lit ''\<newline>              '')
            (insert_text (lit ''\<newline>              '') k @
             [Element (lit ''div'') [(lit ''class'', lit ''color-name'')]
                (insert_text (lit ''\<newline>                '' @ n @ lit ''\<newline>              '') [])]))"

definition header_cell_element :: "tinycolor \<Rightarrow> jsobject \<Rightarrow> node" where
  "header_cell_element tc data =
     Element (lit ''th'')
       [(lit ''scope'', lit ''col''), (lit ''style'', header_style tc data (lit ''        ''))]
       (insert_text (lit ''\<newline>        '')
          (insert_text (lit ''\<newline>          '') [] @
           [Element (lit ''span'') []
              (insert_text (lit ''\<newline>            '' @
                            interpolate (get_prop (lit ''color'') data) @ lit ''\<newline>          '')
                 (add_name data (insert_text (lit ''\<newline>            '') [])))]))"

definition add_header_cell :: "tinycolor \<Rightarrow> node list \<Rightarrow> jsobject \<Rightarrow> node list" where
  "add_header_cell tc k data =
     insert_text (lit ''\<newline>      '')
       (insert_text (lit ''\<newline>        '') k @ [header_cell_element tc data])"

definition td_element :: "tinycolor \<Rightarrow> jsstring option \<Rightarrow> jsobject \<Rightarrow> node" where
  "td_element tc compareColor data =
     Element (lit ''td'') (td_attributes tc compareColor data)
       (insert_text (td_text tc compareColor data) [])"

definition add_td :: "tinycolor \<Rightarrow> jsstring option \<Rightarrow> node list \<Rightarrow> jsobject \<Rightarrow> node list" where
  "add_td tc compareColor k data =
     insert_text (lit ''\<newline>      '')
       (insert_text (lit ''\<newline>        '') k @ [td_element tc compareColor data])"

definition row_header_element :: "tinycolor \<Rightarrow> jsobject \<Rightarrow> node" where
  "row_header_element tc data =
     Element (lit ''th'') (row_header_attributes tc data)
       (insert_text (lit ''\<newline>\<newline>            '' @
                     interpolate (get_prop (lit ''color'') data) @ lit ''\<newline>          '')
          (add_name data (insert_text (lit ''\<newline>            '') [])))"

definition data_row_element :: "tinycolor \<Rightarrow> jsobject list \<Rightarrow> jsobject \<Rightarrow> node" where
  "data_row_element tc xAxisData data =
     Element (lit ''tr'') []
       (insert_text (lit ''\<newline>        '')
          (foldl (add_td tc (get_prop (lit ''color'') data))
             (insert_text (lit ''\<newline>          '')
                (insert_text (lit ''\<newline>          '') [] @ [row_header_element tc data]))
             xAxisData))"

definition add_data_row :: "tinycolor \<Rightarrow> jsobject list \<Rightarrow> node list \<Rightarrow> jsobject \<Rightarrow> node list" where
  "add_data_row tc xAxisData k data =
     insert_text (lit ''\<newline>      '')
       (insert_text (lit ''\<newline>        '') k @ [data_row_element tc xAxisData data])"

definition header_row_element :: "tinycolor \<Rightarrow> jsobject list \<Rightarrow> node" where
  "header_row_element tc xAxisData =
     Element (lit ''tr'') []
       (insert_text (lit ''\<newline>      '')
          (foldl (add_header_cell tc)
             (insert_text (lit ''\<newline>        '')
                (insert_text (lit ''\<newline>        '') [] @ [Element (lit ''td'') [] []]))
             xAxisData))"

definition table_body_element :: "tinycolor \<Rightarrow> jsobject list \<Rightarrow> jsobject list \<Rightarrow> node" where
  "table_body_element tc xAxisData yAxisData =
     Element (lit ''tbody'') []
       (insert_text (lit ''\<newline>      '')
          (foldl (add_data_row tc xAxisData)
             (insert_text (lit ''\<newline>        '')
                (insert_text (lit ''\<newline>    '') [header_row_element tc xAxisData]))
             yAxisData))"

definition table_nodes :: "tinycolor \<Rightarrow> jsobject list \<Rightarrow> jsobject list \<Rightarrow> node list" where
  "table_nodes tc xAxisData yAxisData =
     insert_text (lit ''\<newline>    '')
       (insert_text (lit ''\<newline>      '')
          (insert_text (lit ''\<newline>      '') [] @
           [Element (lit ''table'') []
              (insert_text (lit ''\<newline>      '') (insert_text (lit ''\<newline>        '') []) @
               [table_body_element tc xAxisData yAxisData])]) @
        [Element (lit ''dialog'') [(lit ''id'', lit ''popover''), (lit ''aria-live'', lit ''polite'')]
           []])"

fun is_element_named :: "jsstring \<Rightarrow> node \<Rightarrow> bool" where
  "is_element_named name (Text s) = False"
| "is_element_named name (Element tag attrs children) = (tag = name)"

fun childNodes :: "node \<Rightarrow> node list" where
  "childNodes (Text s) = []"
| "childNodes (Element tag attrs children) = children"

definition row_cells :: "node \<Rightarrow> node list" where
  "row_cells row = filter (is_element_named (lit ''td'')) (childNodes row)"

definition table_rows :: "node list \<Rightarrow> node list" where
  "table_rows nodes = querySelectorAll (lit ''tr'') nodes"

fun doesNotMeet :: "node \<Rightarrow> bool" where
  "doesNotMeet (Text s) = False"
| "doesNotMeet (Element tag attrs children) = (lit ''doesNotMeet'' \<in> set (classList attrs))"

definition whitespace_fields :: "jsstring \<Rightarrow> jsstring list" where
  "whitespace_fields s = foldr (\<lambda>c ts. if isASCIIWhitespace c then [] # ts else (c # hd ts) # tl ts) s [[]]"

definition good_tokens :: "jsstring list \<Rightarrow> bool" where
  "good_tokens ts \<longleftrightarrow>
     distinct ts \<and> (\<forall>t \<in> set ts. t \<noteq> [] \<and> list_all (\<lambda>c. \<not> isASCIIWhitespace c) t)"

text \<open>Notions for the properties of the codec: scalar values and ASCII strings, the code
  units of a string as numbers, the tokens of a serialized array, the JSON value that an
  array of entries denotes, strings without lone surrogates, the parameter lists that
  \<open>URLSearchParams\<close> can hold, the parameters that \<open>setQueryParams\<close> serializes, and a page
  for the concrete examples.\<close>

definition isScalarValue :: "nat \<Rightarrow> bool" where
  "isScalarValue cp \<longleftrightarrow> cp < 0x110000 \<and> \<not> (0xD800 \<le> cp \<and> cp \<le> 0xDFFF)"

definition isASCII :: "jsstring \<Rightarrow> bool" where
  "isASCII s \<longleftrightarrow> (\<forall>c \<in> set s. c < 0x80)"

definition code_units :: "jsstring \<Rightarrow> nat list" where
  "code_units s = map unat s"

definition hex_upper_code :: "nat \<Rightarrow> nat" where
  "hex_upper_code n = (if n < 10 then 0x30 + n else 0x41 + (n - 10))"

definition urlencoded_output_code :: "nat \<Rightarrow> bool" where
  "urlencoded_output_code k \<longleftrightarrow> k = 0x2B \<or> k = 0x25 \<or> urlencoded_safe k"

definition prepend_tokens :: "token list \<Rightarrow> token list option \<Rightarrow> token list option" where
  "prepend_tokens ts r = (case r of None \<Rightarrow> None | Some us \<Rightarrow> Some (ts @ us))"

definition property_tokens :: "jsstring \<times> jsstring \<Rightarrow> token list" where
  "property_tokens p = [TString (fst p), TColon, TString (snd p)]"

definition object_tokens :: "jsobject \<Rightarrow> token list" where
  "object_tokens obj = TLBrace # join_with TComma (map property_tokens obj) @ [TRBrace]"

definition array_tokens :: "jsobject list \<Rightarrow> token list" where
  "array_tokens arr = TLBracket # join_with TComma (map object_tokens arr) @ [TRBracket]"

definition json_of_object :: "jsobject \<Rightarrow> json" where
  "json_of_object obj = JObject (map (\<lambda>p. (fst p, JString (snd p))) obj)"

definition json_of_array :: "jsobject list \<Rightarrow> json" where
  "json_of_array arr = JArray (map json_of_object arr)"

fun wellFormed :: "jsstring \<Rightarrow> bool" where
  "wellFormed [] = True"
| "wellFormed (c # cs) =
     (if isLeadSurrogate c then
        (case cs of [] \<Rightarrow> False | d # ds \<Rightarrow> isTrailSurrogate d \<and> wellFormed ds)
      else if isTrailSurrogate c then False
      else wellFormed cs)"

definition example_page :: page where
  "example_page =
     \<lparr> location_pathname = lit ''/contrast-grid/'',
       location_search = lit ''?utm=a+b&yAxisData=old&xAxisData=%5B%5D&xAxisData=dup'',
       history_entries = [],
       xInput_value = lit ''White: #fff'',
       yInput_value = lit ''#0d8764'',
       table_container = Some [],
       contrast_value = 4.5 \<rparr>"

definition wf_params :: "params \<Rightarrow> bool" where
  "wf_params ps \<longleftrightarrow> (\<forall>p \<in> set ps. USVString (fst p) = fst p \<and> USVString (snd p) = snd p)"

definition query_code :: "nat \<Rightarrow> bool" where
  "query_code k \<longleftrightarrow> urlencoded_output_code k \<or> k = 0x26 \<or> k = 0x3D"

definition new_params :: "jsobject list \<Rightarrow> jsobject list \<Rightarrow> jsstring \<Rightarrow> jsstring \<Rightarrow> params \<Rightarrow> params" where
  "new_params x y ex ey ps =
     (if JSON_stringify x \<noteq> JSON_stringify y
      then usp_set (lit ''yAxisData'') ey (usp_set (lit ''xAxisData'') ex ps)
      else usp_delete (lit ''yAxisData'') (usp_set (lit ''xAxisData'') ex ps))"

section \<open>Properties of the parser\<close>

lemma split_on_not_Nil: "split_on sep s \<noteq> []"
  by (induction s) (auto split: list.splits)

lemma split_on_append: "split_on sep (a @ sep # b) = split_on sep a @ split_on sep b"
  by (induction a) (auto split: list.splits simp: split_on_not_Nil)

lemma foldl_push:
  "foldl (\<lambda>outputArray line.
              case parse_line tc line of (data, lineHasValidColor) \<Rightarrow>
                if length data \<noteq> 0 \<and> lineHasValidColor then outputArray @ [data]
                else outputArray) acc ls = acc @ concat (map (line_entries tc) ls)"
  by (induction ls arbitrary: acc) (auto simp: line_entries_def split: prod.splits)

lemma getInputData_concat:
  "getInputData tc s = concat (map (line_entries tc) (split_on 0x000A s))"
  unfolding getInputData_def foldl_push by simp

lemma classify_item_skip: "2 \<le> n \<Longrightarrow> foldl (classify_item tc) st (enumerate n xs) = st"
  by (induction xs arbitrary: n st) (auto simp: classify_item_def split: prod.splits)

lemma set_prop_not_Nil: "set_prop k v obj \<noteq> []"
  by (cases obj) auto

lemma parse_line_one:
  "split_on (ch CHR '':'') line = [s0] \<Longrightarrow>
   parse_line tc line = classify_item tc ([], False) (0, s0)"
  by (simp add: parse_line_def)

lemma parse_line_two:
  "split_on (ch CHR '':'') line = s0 # s1 # rest \<Longrightarrow>
   parse_line tc line = classify_item tc (classify_item tc ([], False) (0, s0)) (1, s1)"
  by (simp add: parse_line_def classify_item_skip)

lemma snd_classify_item:
  "index < 2 \<Longrightarrow> snd (classify_item tc st (index, item)) = isValid tc (clean_item item)"
  by (cases st) (simp add: classify_item_def Let_def)

lemma fst_classify_item_valid:
  "index < 2 \<Longrightarrow> isValid tc (clean_item item) \<Longrightarrow>
   fst (classify_item tc st (index, item)) = set_prop (lit ''color'') (clean_item item) (fst st)"
  by (cases st) (simp add: classify_item_def Let_def)

text \<open>The flag \<open>lineHasValidColor\<close> after the inner loop is the validity of the last of the
  first two segments, cleaned.\<close>

lemma parse_line_valid:
  "snd (parse_line tc line) =
     isValid tc (clean_item (last (take 2 (split_on (ch CHR '':'') line))))"
proof (cases "split_on (ch CHR '':'') line")
  case Nil
  then show ?thesis by (simp add: split_on_not_Nil)
next
  case outer: (Cons s0 r)
  show ?thesis
  proof (cases r)
    case Nil
    with outer show ?thesis by (simp add: parse_line_one snd_classify_item)
  next
    case (Cons s1 rest)
    with outer show ?thesis by (simp add: parse_line_two snd_classify_item)
  qed
qed

lemma parse_line_data:
  assumes v: "snd (parse_line tc line)"
  shows "fst (parse_line tc line) \<noteq> []"
proof (cases "split_on (ch CHR '':'') line")
  case Nil
  then show ?thesis by (simp add: split_on_not_Nil)
next
  case outer: (Cons s0 r)
  show ?thesis
  proof (cases r)
    case Nil
    with outer v show ?thesis
      by (simp add: parse_line_one snd_classify_item fst_classify_item_valid set_prop_not_Nil)
  next
    case (Cons s1 rest)
    with outer v show ?thesis
      by (simp add: parse_line_two snd_classify_item fst_classify_item_valid set_prop_not_Nil)
  qed
qed

lemma line_entries_eq:
  "line_entries tc line =
    (if isValid tc (clean_item (last (take 2 (split_on (ch CHR '':'') line))))
     then [fst (parse_line tc line)] else [])"
  using parse_line_valid[of tc line] parse_line_data[of tc line]
  by (auto simp: line_entries_def split: prod.splits)

lemma trim_idem: "trim (trim s) = trim s"
proof -
  define u where "u = dropWhile isTrimmed s"
  define v where "v = dropWhile isTrimmed (rev u)"
  have t: "trim s = rev v" by (simp add: trim_def u_def v_def)
  have hv: "v = [] \<or> \<not> isTrimmed (hd v)"
    unfolding v_def by (metis hd_dropWhile)
  have hu: "u = [] \<or> \<not> isTrimmed (hd u)"
    unfolding u_def by (metis hd_dropWhile)
  have lv: "v = [] \<or> \<not> isTrimmed (last v)"
  proof (cases "v = []")
    case True
    then show ?thesis by simp
  next
    case False
    obtain w where w: "rev u = w @ v"
      unfolding v_def by (metis takeWhile_dropWhile_id)
    from False w have "last v = last (rev u)" by simp
    moreover from False w have "u \<noteq> []" by auto
    ultimately show ?thesis using hu by (simp add: last_rev)
  qed
  have 1: "dropWhile isTrimmed (rev v) = rev v"
    using lv by (cases "v = []") (simp_all add: dropWhile_eq_self_iff hd_rev)
  have 2: "dropWhile isTrimmed v = v"
    using hv by (cases "v = []") (simp_all add: dropWhile_eq_self_iff)
  show ?thesis unfolding t by (simp add: trim_def 1 2)
qed

lemma trim_clean_item: "trim (clean_item s) = clean_item s"
  by (simp add: clean_item_def trim_idem)

lemma color_neq_name: "lit ''color'' \<noteq> lit ''name''"
  by (simp add: lit_def ch_def)

lemma parse_line_entry:
  assumes "snd (parse_line tc line)"
  shows "valid_entry tc (fst (parse_line tc line))"
proof (cases "split_on (ch CHR '':'') line")
  case Nil
  then show ?thesis by (simp add: split_on_not_Nil)
next
  case outer: (Cons s0 r)
  show ?thesis
  proof (cases r)
    case Nil
    with outer assms show ?thesis
      using color_neq_name
      by (auto simp: parse_line_one classify_item_def Let_def get_prop_def valid_entry_def
          split: if_splits)
  next
    case (Cons s1 rest)
    with outer assms show ?thesis
      using color_neq_name trim_clean_item[of s0]
      by (auto simp: parse_line_two classify_item_def Let_def get_prop_def valid_entry_def
          split: if_splits)
  qed
qed

lemma line_entries_valid: "e \<in> set (line_entries tc line) \<Longrightarrow> valid_entry tc e"
  using parse_line_entry[of tc line]
  by (cases "parse_line tc line") (auto simp: line_entries_def split: if_splits)

lemma example_comma_space:
  "getInputData example_tinycolor (lit ''#fff, '') = [[(lit ''color'', lit ''#fff'')]]"
  by code_simp

lemma example_three_lines:
  "getInputData example_tinycolor
     (lit ''White: #fff;'' @ [0x000A] @ lit ''notacolor: alsonotacolor'' @ [0x000A] @ lit ''#000,'')
   = [[(lit ''name'', lit ''White''), (lit ''color'', lit ''#fff'')],
      [(lit ''color'', lit ''#000'')]]"
  by code_simp

text \<open>
  C3, as the specification states it: a line gives an entry if and only if the last of its
  first two segments is a valid color after stripping from the first semicolon to the end,
  then stripping one trailing comma, then trimming. The script trims before it looks for
  the trailing comma: the line \<open>#fff, \<close> (a comma, then a space) gives the entry
  \<open>{color: "#fff"}\<close>, while the segment cleaned in the stated order is \<open>#fff,\<close>, which is
  no color.
\<close>

theorem C3_stated_order_counterexample:
  "getInputData example_tinycolor (lit ''#fff, '') = [[(lit ''color'', lit ''#fff'')]] \<and>
   \<not> isValid example_tinycolor
       (spec_clean_item (last (take 2 (split_on (ch CHR '':'') (lit ''#fff, '')))))"
proof
  show "getInputData example_tinycolor (lit ''#fff, '') = [[(lit ''color'', lit ''#fff'')]]"
    by (rule example_comma_space)
  show "\<not> isValid example_tinycolor
       (spec_clean_item (last (take 2 (split_on (ch CHR '':'') (lit ''#fff, '')))))"
    by code_simp
qed

text \<open>
  C3, amended: the entries of \<open>getInputData\<close> are, line by line and in order, one entry for
  each line whose last processed segment is a valid color and none for the other lines. The
  last processed segment is the last of the first two \<open>:\<close>-separated segments of the line,
  cleaned as the script does it: every semicolon goes with the code units after it up to
  the next line terminator, the rest is trimmed, one final comma goes, and the rest is
  trimmed again.
\<close>

theorem C3_line_acceptance:
  "getInputData tc text =
     concat (map (\<lambda>line.
        if isValid tc (clean_item (last (take 2 (split_on (ch CHR '':'') line))))
        then [fst (parse_line tc line)] else []) (split_on 0x000A text))"
  unfolding getInputData_concat
  by (rule arg_cong[where f=concat], rule map_cong[OF refl], rule line_entries_eq)

theorem C3_line_acceptance_witness:
  "concat (map (\<lambda>line.
        if isValid example_tinycolor (clean_item (last (take 2 (split_on (ch CHR '':'') line))))
        then [fst (parse_line example_tinycolor line)] else [])
      (split_on 0x000A (lit ''notacolor: alsonotacolor''))) = [] \<and>
   getInputData example_tinycolor (lit ''notacolor: alsonotacolor'') = []"
proof -
  have e: "getInputData example_tinycolor (lit ''notacolor: alsonotacolor'') = []"
    by code_simp
  show ?thesis
    using C3_line_acceptance[of example_tinycolor "lit ''notacolor: alsonotacolor''"] e by simp
qed

text \<open>
  C5, as the specification states it: no two entries of the output are equal. The script
  never compares entries: the two lines \<open>#fff\<close> and \<open>#fff\<close> give two equal entries.
\<close>

theorem C5_duplicates_counterexample:
  "\<not> distinct (getInputData example_tinycolor (lit ''#fff'' @ [0x000A] @ lit ''#fff''))"
proof -
  have "getInputData example_tinycolor (lit ''#fff'' @ [0x000A] @ lit ''#fff'')
        = [[(lit ''color'', lit ''#fff'')], [(lit ''color'', lit ''#fff'')]]"
    by code_simp
  then show ?thesis by simp
qed

text \<open>
  C5, amended: the output keeps the order of the input lines and keeps duplicates: the
  entries of a text are the entries of its part before a line break, followed by the
  entries of its part after that line break.
\<close>

theorem C5_order_preserved:
  "getInputData tc (a @ 0x000A # b) = getInputData tc a @ getInputData tc b"
  by (simp add: getInputData_concat split_on_append)

theorem C5_order_preserved_witness:
  "getInputData example_tinycolor (lit ''#fff'' @ 0x000A # lit ''#fff'')
   = [[(lit ''color'', lit ''#fff'')], [(lit ''color'', lit ''#fff'')]]"
proof -
  have "getInputData example_tinycolor (lit ''#fff'') = [[(lit ''color'', lit ''#fff'')]]"
    by code_simp
  then show ?thesis
    using C5_order_preserved[of example_tinycolor "lit ''#fff''" "lit ''#fff''"] by simp
qed

text \<open>
  C8: every entry that \<open>getInputData\<close> returns has a \<open>color\<close> property that passes the
  library's validity check, and its \<open>name\<close> property, when it has one, is not empty after
  trimming.
\<close>

theorem C8_entry_invariant:
  "\<forall>e \<in> set (getInputData tc text).
     (\<exists>c. get_prop (lit ''color'') e = Some c \<and> isValid tc c) \<and>
     (\<forall>n. get_prop (lit ''name'') e = Some n \<longrightarrow> trim n \<noteq> [])"
  using line_entries_valid by (auto simp: getInputData_concat valid_entry_def)

theorem C8_entry_invariant_witness:
  "(\<exists>c. get_prop (lit ''color'') [(lit ''name'', lit ''White''), (lit ''color'', lit ''#fff'')]
          = Some c \<and> isValid example_tinycolor c) \<and>
   trim (lit ''White'') \<noteq> []"
proof -
  let ?text = "lit ''White: #fff;'' @ [0x000A] @ lit ''notacolor: alsonotacolor'' @ [0x000A] @ lit ''#000,''"
  let ?e = "[(lit ''name'', lit ''White''), (lit ''color'', lit ''#fff'')]"
  have m: "?e \<in> set (getInputData example_tinycolor ?text)"
    unfolding example_three_lines by simp
  have n: "get_prop (lit ''name'') ?e = Some (lit ''White'')"
    by (simp add: get_prop_def)
  from C8_entry_invariant[of example_tinycolor ?text] m n show ?thesis
    by blast
qed

section \<open>Properties of the table\<close>

subsection \<open>Numbers and their texts\<close>

lemma unat_of_nat_jschar: "n < 65536 \<Longrightarrow> unat (of_nat n :: jschar) = n"
  by (simp add: unat_of_nat)

lemma unat_digit: "d < 10 \<Longrightarrow> unat (0x30 + of_nat d :: jschar) = 0x30 + d"
  using unat_of_nat_jschar[of "0x30 + d"] by simp

lemma isDecimalDigit_unat: "isDecimalDigit c \<longleftrightarrow> 0x30 \<le> unat c \<and> unat c \<le> 0x39"
  by (simp add: isDecimalDigit_def word_le_nat_alt)

lemma isDecimalDigit_digit: "d < 10 \<Longrightarrow> isDecimalDigit (0x30 + of_nat d)"
  unfolding isDecimalDigit_unat using unat_digit[of d] by simp

lemma digits_value_snoc: "digits_value (ds @ [c]) = 10 * digits_value ds + (unat c - 0x30)"
  by (simp add: digits_value_def)

lemma digits_value_Nil: "digits_value [] = 0"
  by (simp add: digits_value_def)

lemma digits_value_append:
  "digits_value (a @ b) = digits_value a * 10 ^ length b + digits_value b"
proof (induction b rule: rev_induct)
  case Nil
  show ?case by (simp add: digits_value_Nil)
next
  case (snoc c b)
  have "digits_value (a @ b @ [c]) = 10 * digits_value (a @ b) + (unat c - 0x30)"
    using digits_value_snoc[of "a @ b" c] by simp
  also have "\<dots> = 10 * (digits_value a * 10 ^ length b + digits_value b) + (unat c - 0x30)"
    by (simp add: snoc.IH)
  also have "\<dots> = digits_value a * 10 ^ length (b @ [c]) + digits_value (b @ [c])"
    by (simp add: digits_value_snoc algebra_simps)
  finally show ?case .
qed

lemma digits_value_zeros: "digits_value (replicate k 0x30) = 0"
  by (induction k) (simp_all add: digits_value_def)

lemma decimal_digits: "list_all isDecimalDigit (decimal n)"
proof (induction n rule: decimal.induct)
  case (1 n)
  show ?case
  proof (cases "n < 10")
    case True
    then show ?thesis by (subst decimal.simps) (simp add: isDecimalDigit_digit)
  next
    case False
    have "n mod 10 < 10" by simp
    then show ?thesis using False 1
      by (subst decimal.simps) (simp add: isDecimalDigit_digit)
  qed
qed

lemma decimal_not_Nil: "decimal n \<noteq> []"
  by (subst decimal.simps) simp

lemma digits_value_decimal: "digits_value (decimal n) = n"
proof (induction n rule: decimal.induct)
  case (1 n)
  show ?case
  proof (cases "n < 10")
    case True
    then show ?thesis
      by (subst decimal.simps) (simp add: digits_value_def unat_digit)
  next
    case False
    have m: "n mod 10 < 10" by simp
    have "digits_value (decimal n) = 10 * digits_value (decimal (n div 10)) + n mod 10"
      using False unat_digit[OF m]
      by (subst decimal.simps) (simp add: digits_value_snoc)
    then show ?thesis using 1 False by simp
  qed
qed

lemma toFixed_2_form:
  assumes "0 \<le> x"
  shows "\<exists>a b. toFixed 2 x = a @ ch CHR ''.'' # b \<and> a \<noteq> [] \<and> length b = 2 \<and>
               list_all isDecimalDigit a \<and> list_all isDecimalDigit b \<and>
               digits_value a * 100 + digits_value b = nat \<lfloor>x * 100 + 1 / 2\<rfloor>"
proof -
  define n where "n = nat \<lfloor>x * 100 + 1 / 2\<rfloor>"
  define m where "m = (if length (decimal n) \<le> 2 then replicate (3 - length (decimal n)) 0x30 @ decimal n
                      else decimal n)"
  have len: "2 < length m"
    using decimal_not_Nil[of n] by (auto simp: m_def)
  have dig: "list_all isDecimalDigit m"
    using decimal_digits[of n] by (auto simp: m_def isDecimalDigit_def list_all_iff)
  have val: "digits_value m = n"
    by (simp add: m_def digits_value_append digits_value_zeros digits_value_decimal)
  have tf: "toFixed 2 x = take (length m - 2) m @ ch CHR ''.'' # drop (length m - 2) m"
    using assms by (simp add: toFixed_def Let_def n_def m_def lit_def)
  let ?a = "take (length m - 2) m" and ?b = "drop (length m - 2) m"
  have "digits_value (?a @ ?b) = digits_value ?a * 10 ^ length ?b + digits_value ?b"
    by (rule digits_value_append)
  moreover have "length ?b = 2" using len by simp
  ultimately have v: "digits_value ?a * 100 + digits_value ?b = n"
    using val by simp
  have "?a \<noteq> []" using len by auto
  moreover have "list_all isDecimalDigit ?a" "list_all isDecimalDigit ?b"
    using dig by (auto simp: list_all_iff dest: in_set_takeD in_set_dropD)
  ultimately show ?thesis using tf v \<open>length ?b = 2\<close> unfolding n_def by blast
qed

lemma not_digit_trimmed: "isTrimmed c \<Longrightarrow> \<not> isDecimalDigit c"
  by (auto simp: isTrimmed_def isWhiteSpace_def isLineTerminator_def isDecimalDigit_def
      word_le_nat_alt)

lemma takeWhile_digits:
  "list_all isDecimalDigit a \<Longrightarrow> r = [] \<or> \<not> isDecimalDigit (hd r) \<Longrightarrow>
   takeWhile isDecimalDigit (a @ r) = a"
  by (cases r) (auto simp: list_all_iff takeWhile_append2 intro: takeWhile_eq_all_conv[THEN iffD2])

lemma parseFloat_fixed:
  assumes w1: "list_all isTrimmed w1" and w2: "list_all isTrimmed w2"
    and a: "a \<noteq> []" "list_all isDecimalDigit a" and b: "b \<noteq> []" "list_all isDecimalDigit b"
  shows "parseFloat (w1 @ a @ ch CHR ''.'' # b @ w2) =
           Number (real (digits_value a) + real (digits_value b) / 10 ^ length b)"
proof -
  let ?u = "a @ ch CHR ''.'' # b @ w2"
  have ha: "isDecimalDigit (hd a)" using a by (cases a) simp_all
  then have nt: "\<not> isTrimmed (hd a)" using not_digit_trimmed by blast
  have d1: "dropWhile isTrimmed (w1 @ ?u) = ?u"
    using w1 nt a(1) by (cases a) (auto simp: list_all_iff dropWhile_append2)
  have hd_u: "hd ?u = hd a" "?u \<noteq> []" using a(1) by (cases a; simp)+
  have nm: "\<not> isPrefix (lit ''-'') ?u" "\<not> isPrefix (lit ''+'') ?u" "\<not> isPrefix (lit ''Infinity'') ?u"
    using ha a(1) by (cases a; auto simp: isPrefix_def lit_def ch_def isDecimalDigit_def)+
  have dot: "\<not> isDecimalDigit (ch CHR ''.'')" by (simp add: isDecimalDigit_def ch_def)
  have ip: "takeWhile isDecimalDigit ?u = a"
    using takeWhile_digits[OF a(2), of "ch CHR ''.'' # b @ w2"] dot by simp
  have r1: "drop (length a) ?u = ch CHR ''.'' # b @ w2" by simp
  have w2': "w2 = [] \<or> \<not> isDecimalDigit (hd w2)"
    using w2 not_digit_trimmed by (cases w2) auto
  have fp: "takeWhile isDecimalDigit (b @ w2) = b"
    by (rule takeWhile_digits[OF b(2) w2'])
  have ex: "exponent_part w2 = None"
  proof (cases w2)
    case Nil
    then show ?thesis by (simp add: exponent_part_def)
  next
    case (Cons c r)
    then have "isTrimmed c" using w2 by simp
    then have "c \<noteq> ch CHR ''e''" "c \<noteq> ch CHR ''E''"
      by (auto simp: isTrimmed_def isWhiteSpace_def isLineTerminator_def ch_def)
    then show ?thesis using Cons by (simp add: exponent_part_def)
  qed
  have ud: "unsigned_decimal ?u =
      Some (real (digits_value a) + real (digits_value b) / 10 ^ length b)"
    unfolding unsigned_decimal_def ip r1 Let_def
    using a(1) b(1) fp ex by (simp add: isPrefix_def lit_def)
  show ?thesis
    unfolding parseFloat_def d1 Let_def using nm ud by simp
qed

lemma parseFloat_toFixed:
  assumes "0 \<le> x" and "list_all isTrimmed w1" and "list_all isTrimmed w2"
  shows "parseFloat (w1 @ toFixed 2 x @ w2) = Number (real_of_int \<lfloor>x * 100 + 1 / 2\<rfloor> / 100)"
proof -
  from toFixed_2_form[OF assms(1)] obtain a b where
    f: "toFixed 2 x = a @ ch CHR ''.'' # b" "a \<noteq> []" "length b = 2"
       "list_all isDecimalDigit a" "list_all isDecimalDigit b"
       "digits_value a * 100 + digits_value b = nat \<lfloor>x * 100 + 1 / 2\<rfloor>"
    by blast
  have b: "b \<noteq> []" using f(3) by auto
  have nn: "0 \<le> \<lfloor>x * 100 + 1 / 2\<rfloor>" using assms(1) by simp
  have "real (digits_value a) + real (digits_value b) / 10 ^ length b =
        real (digits_value a * 100 + digits_value b) / 100"
    using f(3) by (simp add: field_simps)
  also have "\<dots> = real (nat \<lfloor>x * 100 + 1 / 2\<rfloor>) / 100" by (simp only: f(6))
  also have "\<dots> = real_of_int \<lfloor>x * 100 + 1 / 2\<rfloor> / 100" using nn by simp
  finally have e: "real (digits_value a) + real (digits_value b) / 10 ^ length b =
        real_of_int \<lfloor>x * 100 + 1 / 2\<rfloor> / 100" .
  show ?thesis
    using parseFloat_fixed[OF assms(2,3) f(2) f(4) b f(5)] unfolding f(1) e by simp
qed

subsection \<open>The tokens of the markup\<close>

lemma emit_Some: "emit (Some a) ts = map_option ((#) a) ts"
  by (simp add: emit_def split: option.split)

lemma tokenize_append:
  "tokenize st a = Some ta \<Longrightarrow>
   tokenize st (a @ b) = map_option ((@) ta) (tokenize DataState b)"
proof (induction st a arbitrary: ta rule: tokenize.induct)
  case 1
  then show ?case by (simp add: option.map_ident cong: option.map_cong)
qed (auto simp: emit_def option.map_comp comp_def split: if_splits option.splits)

lemma tokenize_text: "plain_text s \<Longrightarrow> tokenize DataState s = Some (map Character s)"
  by (induction s) (simp_all add: plain_text_def unmodelled_def emit_Some)

lemma tokenize_value:
  "plain_value v \<Longrightarrow>
   tokenize (AttributeValueDoubleQuotedState t n acc) (v @ rest) =
   tokenize (AttributeValueDoubleQuotedState t n (acc @ v)) rest"
  by (induction v arbitrary: acc) (simp_all add: plain_value_def unmodelled_def)

lemma tokenize_td_open:
  "tokenize DataState (lit ''<td tabindex=\"0\" role=\"button\" style=\"'' @ rest) =
   tokenize (AttributeValueDoubleQuotedState
      (False, lit ''td'', [(lit ''tabindex'', lit ''0''), (lit ''role'', lit ''button'')])
      (lit ''style'') []) rest"
  by (simp add: lit_def ch_def isASCIIAlpha_def lowercase_def isTagWhitespace_def
      unmodelled_def unmodelled_in_name_def unmodelled_unquoted_def add_attribute_def)

lemma tokenize_text_then:
  "plain_text s \<Longrightarrow>
   tokenize DataState (s @ rest) = map_option ((@) (map Character s)) (tokenize DataState rest)"
  by (rule tokenize_append[OF tokenize_text])

lemma tokenize_name_markup:
  assumes "\<forall>n. get_prop (lit ''name'') data = Some n \<longrightarrow> plain_text n"
  shows "tokenize DataState (name_markup data @ rest) =
         map_option ((@) (name_tokens data)) (tokenize DataState rest)"
proof (cases "get_prop (lit ''name'') data")
  case None
  then show ?thesis
    by (simp add: name_markup_def name_tokens_def option.map_ident cong: option.map_cong)
next
  case (Some n)
  then have p: "plain_text n" using assms by simp
  have m: "name_markup data =
      lit ''\<newline>              <div class=\"color-name\">\<newline>                '' @ n @
      lit ''\<newline>              </div>\<newline>              ''"
    using Some by (simp add: name_markup_def interpolate_def)
  have t: "name_tokens data =
          map Character (lit ''\<newline>              '') @
          [StartTag (lit ''div'') [(lit ''class'', lit ''color-name'')]] @
          map Character (lit ''\<newline>                '' @ n @ lit ''\<newline>              '') @
          [EndTag (lit ''div'')] @
          map Character (lit ''\<newline>              '')"
    using Some by (simp add: name_tokens_def)
  show ?thesis
    unfolding m t
    by (cases "tokenize DataState rest")
       (simp_all add: tokenize_text_then[OF p] emit_Some
          lit_def ch_def isASCIIAlpha_def lowercase_def isTagWhitespace_def
          unmodelled_def unmodelled_in_name_def unmodelled_unquoted_def add_attribute_def
          tag_token_def)
qed

lemma lit_append: "lit a @ lit b = lit (a @ b)"
  by (simp add: lit_def)

named_theorems tok \<open>evaluation of the tokenizer on literal markup\<close>

lemmas tokenizer_eval [tok] =
  lit_def ch_def isASCIIAlpha_def lowercase_def isTagWhitespace_def
  unmodelled_def unmodelled_in_name_def unmodelled_unquoted_def add_attribute_def
  tag_token_def emit_Some

lemma tokenize_header_template:
  assumes "plain_value hex" "plain_value most" "plain_text col"
    and "\<And>r. tokenize DataState (nm @ r) = map_option ((@) nmt) (tokenize DataState r)"
  shows "tokenize DataState
           (lit ''\<newline>        <th scope=\"col\" style=\"\<newline>            --color: '' @ hex @
            lit '';\<newline>            --text-color: '' @ most @
            lit '';\<newline>        \">\<newline>          <span>\<newline>            '' @ nm @
            lit ''\<newline>            '' @ col @
            lit ''\<newline>          </span>\<newline>        </th>\<newline>      '' @ rest) =
         map_option ((@)
           (map Character (lit ''\<newline>        '') @
            [StartTag (lit ''th'')
               [(lit ''scope'', lit ''col''),
                (lit ''style'', lit ''\<newline>            --color: '' @ hex @
                   lit '';\<newline>            --text-color: '' @ most @ lit '';\<newline>        '')]] @
            map Character (lit ''\<newline>          '') @
            [StartTag (lit ''span'') []] @
            map Character (lit ''\<newline>            '') @
            nmt @
            map Character (lit ''\<newline>            '' @ col @ lit ''\<newline>          '') @
            [EndTag (lit ''span'')] @
            map Character (lit ''\<newline>        '') @
            [EndTag (lit ''th'')] @
            map Character (lit ''\<newline>      '')))
           (tokenize DataState rest)"
  by (cases "tokenize DataState rest")
     (simp_all add: tok tokenize_value[OF assms(1)] tokenize_value[OF assms(2)]
        tokenize_text_then[OF assms(3)] assms(4))

lemma tokenize_header_cell:
  assumes "plain_entry tc data"
  shows "tokenize DataState (header_cell tc data @ rest) =
         map_option ((@) (header_cell_tokens tc data)) (tokenize DataState rest)"
  using assms
    tokenize_header_template[of "toHexString tc (get_prop (lit ''color'') data)"
      "mostReadable tc (get_prop (lit ''color'') data) [lit ''#fff'', lit ''#000'']"
      "interpolate (get_prop (lit ''color'') data)" "name_markup data" "name_tokens data" rest]
    tokenize_name_markup[of data]
  unfolding plain_entry_def header_cell_def header_cell_tokens_def header_style_def
  by (simp add: lit_append)

lemma plain_text_append [simp]: "plain_text (a @ b) \<longleftrightarrow> plain_text a \<and> plain_text b"
  by (auto simp: plain_text_def)

lemma plain_text_digits: "list_all isDecimalDigit s \<Longrightarrow> plain_text s"
  by (auto simp: plain_text_def list_all_iff isDecimalDigit_def)

lemma plain_text_toFixed: "plain_text (toFixed f x)"
proof -
  have d: "plain_text (decimal n)" for n
    by (rule plain_text_digits[OF decimal_digits])
  have z: "plain_text (replicate k 0x30)" for k
    by (simp add: plain_text_def)
  have t: "plain_text (take k s)" "plain_text (drop k s)" if "plain_text s" for k s
    using that by (auto simp: plain_text_def dest: in_set_takeD in_set_dropD)
  have l: "plain_text (lit ''-'')" "plain_text (lit ''.'')" "plain_text []"
    by (simp_all add: plain_text_def lit_def ch_def)
  show ?thesis
    unfolding toFixed_def Let_def by (simp add: d z t l)
qed

lemma tokenize_concat:
  assumes "\<And>p r. p \<in> set ps \<Longrightarrow>
             tokenize DataState (f p @ r) = map_option ((@) (g p)) (tokenize DataState r)"
  shows "tokenize DataState (concat (map f ps) @ rest) =
         map_option ((@) (concat (map g ps))) (tokenize DataState rest)"
  using assms
proof (induction ps)
  case Nil
  show ?case by (simp add: option.map_ident cong: option.map_cong)
next
  case (Cons p ps)
  then show ?case by (simp add: option.map_comp comp_def)
qed

lemma tokenize_td_template:
  assumes "plain_value h1" "plain_value h2" "plain_value h3" "plain_text fx"
  shows "tokenize DataState
           (lit ''\<newline>        <td tabindex=\"0\" role=\"button\" style=\"\<newline>            --color-1: '' @ h1 @
            lit '';\<newline>            --color-2: '' @ h2 @
            lit '';\<newline>            --hover-text-color: '' @ h3 @
            lit '';\<newline>        \">\<newline>          '' @ fx @
            lit ''\<newline>        </td>\<newline>      '' @ rest) =
         map_option ((@)
           (map Character (lit ''\<newline>        '') @
            [StartTag (lit ''td'')
               [(lit ''tabindex'', lit ''0''), (lit ''role'', lit ''button''),
                (lit ''style'', lit ''\<newline>            --color-1: '' @ h1 @
                   lit '';\<newline>            --color-2: '' @ h2 @
                   lit '';\<newline>            --hover-text-color: '' @ h3 @ lit '';\<newline>        '')]] @
            map Character (lit ''\<newline>          '' @ fx @ lit ''\<newline>        '') @
            [EndTag (lit ''td'')] @
            map Character (lit ''\<newline>      '')))
           (tokenize DataState rest)"
  by (cases "tokenize DataState rest")
     (simp_all add: tok tokenize_value[OF assms(1)] tokenize_value[OF assms(2)]
        tokenize_value[OF assms(3)] tokenize_text_then[OF assms(4)])

lemma tokenize_table_td:
  assumes "plain_entry tc data"
    and "plain_value (toHexString tc compareColor)"
  shows "tokenize DataState (table_td tc compareColor data @ rest) =
         map_option ((@) (td_tokens tc compareColor data)) (tokenize DataState rest)"
  using assms
    tokenize_td_template[of "toHexString tc (get_prop (lit ''color'') data)"
      "toHexString tc compareColor"
      "mostReadable tc (get_prop (lit ''color'') data) [lit ''#fff'', lit ''#000'']"
      "toFixed 2 (readability tc (get_prop (lit ''color'') data) compareColor)" rest]
    plain_text_toFixed[of 2 "readability tc (get_prop (lit ''color'') data) compareColor"]
  unfolding plain_entry_def table_td_def td_tokens_def td_attributes_def td_style_def td_text_def
    Let_def
  by simp

lemma tokenize_buildTableTds:
  assumes "\<forall>data \<in> set xAxisData. plain_entry tc data"
    and "plain_value (toHexString tc compareColor)"
  shows "tokenize DataState (buildTableTds tc xAxisData compareColor @ rest) =
         map_option ((@) (concat (map (td_tokens tc compareColor) xAxisData)))
           (tokenize DataState rest)"
  unfolding buildTableTds_def
  by (rule tokenize_concat) (simp add: tokenize_table_td assms)

lemma tokenize_row_template:
  assumes "plain_value hex" "plain_value most" "plain_text col"
    and "\<And>r. tokenize DataState (nm @ r) = map_option ((@) nmt) (tokenize DataState r)"
    and "\<And>r. tokenize DataState (tds @ r) = map_option ((@) tdt) (tokenize DataState r)"
  shows "tokenize DataState
           (lit ''\<newline>        <tr>\<newline>          <th scope=\"row\" style=\"\<newline>            --color: '' @ hex @
            lit '';\<newline>            --text-color: '' @ most @
            lit '';\<newline>          \">\<newline>            '' @ nm @
            lit ''\<newline>\<newline>            '' @ col @
            lit ''\<newline>          </th>\<newline>          '' @ tds @
            lit ''\<newline>        </tr>\<newline>      '' @ rest) =
         map_option ((@)
           (map Character (lit ''\<newline>        '') @
            [StartTag (lit ''tr'') []] @
            map Character (lit ''\<newline>          '') @
            [StartTag (lit ''th'')
               [(lit ''scope'', lit ''row''),
                (lit ''style'', lit ''\<newline>            --color: '' @ hex @
                   lit '';\<newline>            --text-color: '' @ most @ lit '';\<newline>          '')]] @
            map Character (lit ''\<newline>            '') @
            nmt @
            map Character (lit ''\<newline>\<newline>            '' @ col @ lit ''\<newline>          '') @
            [EndTag (lit ''th'')] @
            map Character (lit ''\<newline>          '') @
            tdt @
            map Character (lit ''\<newline>        '') @
            [EndTag (lit ''tr'')] @
            map Character (lit ''\<newline>      '')))
           (tokenize DataState rest)"
  by (cases "tokenize DataState rest")
     (simp_all add: tok tokenize_value[OF assms(1)] tokenize_value[OF assms(2)]
        tokenize_text_then[OF assms(3)] assms(4) assms(5))

lemma tokenize_data_row:
  assumes "\<forall>data \<in> set xAxisData. plain_entry tc data" and "plain_entry tc data"
  shows "tokenize DataState (data_row tc xAxisData data @ rest) =
         map_option ((@) (data_row_tokens tc xAxisData data)) (tokenize DataState rest)"
proof -
  have v: "plain_value (toHexString tc (get_prop (lit ''color'') data))"
    using assms(2) by (simp add: plain_entry_def)
  note t = tokenize_row_template[of "toHexString tc (get_prop (lit ''color'') data)"
      "mostReadable tc (get_prop (lit ''color'') data) [lit ''#fff'', lit ''#000'']"
      "interpolate (get_prop (lit ''color'') data)" "name_markup data" "name_tokens data"
      "buildTableTds tc xAxisData (get_prop (lit ''color'') data)"
      "concat (map (td_tokens tc (get_prop (lit ''color'') data)) xAxisData)" rest]
  show ?thesis
    using assms(2) t tokenize_name_markup[of data] tokenize_buildTableTds[OF assms(1) v]
    unfolding plain_entry_def data_row_def data_row_tokens_def row_header_attributes_def
    by simp
qed

lemma tokenize_buildDataRows:
  assumes "\<forall>data \<in> set xAxisData. plain_entry tc data"
    and "\<forall>data \<in> set yAxisData. plain_entry tc data"
  shows "tokenize DataState (buildDataRows tc xAxisData yAxisData @ rest) =
         map_option ((@) (concat (map (data_row_tokens tc xAxisData) yAxisData)))
           (tokenize DataState rest)"
  unfolding buildDataRows_def
  by (rule tokenize_concat) (simp add: tokenize_data_row assms)

lemma tokenize_header_row_template:
  assumes "\<And>r. tokenize DataState (cells @ r) = map_option ((@) ct) (tokenize DataState r)"
  shows "tokenize DataState
           (lit ''\<newline>      <tr>\<newline>        <td></td>\<newline>        '' @ cells @
            lit ''\<newline>      </tr>\<newline>    '' @ rest) =
         map_option ((@)
           (map Character (lit ''\<newline>      '') @
            [StartTag (lit ''tr'') []] @
            map Character (lit ''\<newline>        '') @
            [StartTag (lit ''td'') [], EndTag (lit ''td'')] @
            map Character (lit ''\<newline>        '') @
            ct @
            map Character (lit ''\<newline>      '') @
            [EndTag (lit ''tr'')] @
            map Character (lit ''\<newline>    '')))
           (tokenize DataState rest)"
  by (cases "tokenize DataState rest") (simp_all add: tok assms)

lemma tokenize_buildHeaderRow:
  assumes "\<forall>data \<in> set xAxisData. plain_entry tc data"
  shows "tokenize DataState (buildHeaderRow tc xAxisData @ rest) =
         map_option ((@) (header_row_tokens tc xAxisData)) (tokenize DataState rest)"
proof -
  have c: "tokenize DataState (concat (map (header_cell tc) xAxisData) @ r) =
         map_option ((@) (concat (map (header_cell_tokens tc) xAxisData))) (tokenize DataState r)"
    for r
    by (rule tokenize_concat) (simp add: tokenize_header_cell assms)
  show ?thesis
    using tokenize_header_row_template[of "concat (map (header_cell tc) xAxisData)"
        "concat (map (header_cell_tokens tc) xAxisData)" rest, OF c]
    unfolding buildHeaderRow_def header_row_tokens_def Let_def by simp
qed

lemma tokenize_table_template:
  assumes "\<And>r. tokenize DataState (header @ r) = map_option ((@) ht) (tokenize DataState r)"
    and "\<And>r. tokenize DataState (rows @ r) = map_option ((@) rt) (tokenize DataState r)"
  shows "tokenize DataState
           (lit ''\<newline>      <table>\<newline>        '' @ header @
            lit ''\<newline>        '' @ rows @
            lit ''\<newline>      </table>\<newline>      <dialog id=\"popover\" aria-live=\"polite\"></dialog>\<newline>    '') =
         Some
           (map Character (lit ''\<newline>      '') @
            [StartTag (lit ''table'') []] @
            map Character (lit ''\<newline>        '') @
            ht @
            map Character (lit ''\<newline>        '') @
            rt @
            map Character (lit ''\<newline>      '') @
            [EndTag (lit ''table'')] @
            map Character (lit ''\<newline>      '') @
            [StartTag (lit ''dialog'')
               [(lit ''id'', lit ''popover''), (lit ''aria-live'', lit ''polite'')],
             EndTag (lit ''dialog'')] @
            map Character (lit ''\<newline>    ''))"
  by (simp add: tok assms)

lemma tokenize_buildTable:
  assumes "\<forall>data \<in> set xAxisData. plain_entry tc data"
    and "\<forall>data \<in> set yAxisData. plain_entry tc data"
  shows "tokenize DataState (buildTable tc xAxisData yAxisData) =
         Some (table_tokens tc xAxisData yAxisData)"
  using tokenize_table_template[of "buildHeaderRow tc xAxisData" "header_row_tokens tc xAxisData"
      "buildDataRows tc xAxisData yAxisData"
      "concat (map (data_row_tokens tc xAxisData) yAxisData)",
      OF tokenize_buildHeaderRow[OF assms(1)] tokenize_buildDataRows[OF assms]]
  unfolding buildTable_def table_tokens_def by simp

subsection \<open>The tree of the markup\<close>

lemma insert_text_Nil [simp]: "insert_text [] k = k"
  by (simp add: insert_text_def)

lemma insert_text_Cons: "insert_text (c # s) k = insert_text s (insert_character c k)"
  by (simp add: insert_text_def)

lemma insert_text_append: "insert_text (s @ t) k = insert_text t (insert_text s k)"
  by (simp add: insert_text_def)

declare reset_insertion_mode.simps [simp del]

lemma mode_children:
  "reset_insertion_mode ((n, a, cs) # below) = reset_insertion_mode ((n, a', cs') # below)"
  by (simp add: reset_insertion_mode.simps)

lemma mode_root: "reset_insertion_mode [e] = InBody"
  by (cases e) (simp add: reset_insertion_mode.simps)

lemma mode_cell:
  "below \<noteq> [] \<Longrightarrow> reset_insertion_mode ((lit ''td'', a, cs) # below) = InCell"
  "below \<noteq> [] \<Longrightarrow> reset_insertion_mode ((lit ''th'', a, cs) # below) = InCell"
  by (simp_all add: reset_insertion_mode.simps)

lemma mode_row: "below \<noteq> [] \<Longrightarrow> reset_insertion_mode ((lit ''tr'', a, cs) # below) = InRow"
  by (simp add: reset_insertion_mode.simps lit_def ch_def)

lemma mode_table_body:
  "below \<noteq> [] \<Longrightarrow> reset_insertion_mode ((lit ''tbody'', a, cs) # below) = InTableBody"
  by (simp add: reset_insertion_mode.simps lit_def ch_def)

lemma mode_table:
  "below \<noteq> [] \<Longrightarrow> reset_insertion_mode ((lit ''table'', a, cs) # below) = InTable"
  by (simp add: reset_insertion_mode.simps lit_def ch_def)

lemma in_body_elements:
  "in_body_element (lit ''div'')" "in_body_element (lit ''span'')" "in_body_element (lit ''dialog'')"
  by (simp_all add: in_body_element_def)

lemma mode_in_body_element:
  "in_body_element n \<Longrightarrow> below \<noteq> [] \<Longrightarrow>
   reset_insertion_mode ((n, a, cs) # below) = reset_insertion_mode below"
  by (auto simp: reset_insertion_mode.simps in_body_element_def lit_def ch_def)

lemmas modes = mode_root mode_cell mode_row mode_table_body mode_table
  mode_in_body_element[OF in_body_elements(1)] mode_in_body_element[OF in_body_elements(2)]
  mode_in_body_element[OF in_body_elements(3)]

lemma process_character:
  assumes "reset_insertion_mode ((cur, a, cs) # below) = InCell \<or>
           reset_insertion_mode ((cur, a, cs) # below) = InBody \<or> isASCIIWhitespace c"
  shows "process_token (Character c) ((cur, a, cs) # below) =
         Some ((cur, a, insert_character c cs) # below)"
  using assms unfolding process_token_def
  by (cases "reset_insertion_mode ((cur, a, cs) # below)") simp_all

lemma construct_characters:
  assumes "reset_insertion_mode ((cur, a, cs) # below) = InCell \<or>
           reset_insertion_mode ((cur, a, cs) # below) = InBody \<or> list_all isASCIIWhitespace s"
  shows "construct_tree (map Character s @ ts) ((cur, a, cs) # below) =
         construct_tree ts ((cur, a, insert_text s cs) # below)"
  using assms
proof (induction s arbitrary: cs)
  case Nil
  show ?case by simp
next
  case (Cons c s)
  have p: "process_token (Character c) ((cur, a, cs) # below) =
         Some ((cur, a, insert_character c cs) # below)"
    by (rule process_character) (use Cons.prems in auto)
  have "reset_insertion_mode ((cur, a, insert_character c cs) # below) = InCell \<or>
        reset_insertion_mode ((cur, a, insert_character c cs) # below) = InBody \<or>
        list_all isASCIIWhitespace s"
    using Cons.prems mode_children[of cur a cs below a "insert_character c cs"] by auto
  from Cons.IH[OF this] show ?case by (simp add: p insert_text_Cons)
qed

lemma construct_text_in_cell:
  "reset_insertion_mode ((cur, a, cs) # below) = InCell \<Longrightarrow>
   construct_tree (map Character s @ ts) ((cur, a, cs) # below) =
   construct_tree ts ((cur, a, insert_text s cs) # below)"
  by (rule construct_characters) simp

lemma construct_text_in_body:
  "reset_insertion_mode ((cur, a, cs) # below) = InBody \<Longrightarrow>
   construct_tree (map Character s @ ts) ((cur, a, cs) # below) =
   construct_tree ts ((cur, a, insert_text s cs) # below)"
  by (rule construct_characters) simp

lemma whitespace_lit:
  "list_all (\<lambda>c. c = CHR ''\<newline>'' \<or> c = CHR '' '') s \<Longrightarrow> list_all isASCIIWhitespace (lit s)"
  by (induction s) (auto simp: lit_def ch_def isASCIIWhitespace_def)

lemma construct_whitespace:
  "list_all (\<lambda>c. c = CHR ''\<newline>'' \<or> c = CHR '' '') s \<Longrightarrow>
   construct_tree (map Character (lit s) @ ts) ((cur, a, cs) # below) =
   construct_tree ts ((cur, a, insert_text (lit s) cs) # below)"
  by (rule construct_characters) (simp add: whitespace_lit)

lemma start_cell:
  assumes "below \<noteq> []"
  shows "process_token (StartTag (lit ''td'') as) ((lit ''tr'', a, cs) # below) =
           Some ((lit ''td'', as, []) # (lit ''tr'', a, cs) # below)"
    and "process_token (StartTag (lit ''th'') as) ((lit ''tr'', a, cs) # below) =
           Some ((lit ''th'', as, []) # (lit ''tr'', a, cs) # below)"
  using assms by (simp_all add: process_token_def mode_row push_element_def)

lemma end_cell:
  "process_token (EndTag (lit ''td'')) ((lit ''td'', a, cs) # (p, pa, pcs) # below) =
     Some ((p, pa, pcs @ [Element (lit ''td'') a cs]) # below)"
  "process_token (EndTag (lit ''th'')) ((lit ''th'', a, cs) # (p, pa, pcs) # below) =
     Some ((p, pa, pcs @ [Element (lit ''th'') a cs]) # below)"
  by (simp_all add: process_token_def mode_cell)

lemma start_in_body:
  assumes "in_body_element n \<or> n = lit ''table''"
    and "reset_insertion_mode st = InCell \<or> reset_insertion_mode st = InBody"
    and "st \<noteq> []"
  shows "process_token (StartTag n as) st = Some ((n, as, []) # st)"
  using assms unfolding process_token_def
  by (cases st) (auto simp: push_element_def in_body_element_def)

lemma end_in_body:
  assumes "in_body_element n"
    and "reset_insertion_mode ((p, pa, pcs) # below) = InCell \<or>
         reset_insertion_mode ((p, pa, pcs) # below) = InBody"
  shows "process_token (EndTag n) ((n, a, cs) # (p, pa, pcs) # below) =
           Some ((p, pa, pcs @ [Element n a cs]) # below)"
  using assms mode_in_body_element[of n "(p, pa, pcs) # below" a cs]
  unfolding process_token_def
  by auto

lemma start_row_in_table:
  "below \<noteq> [] \<Longrightarrow>
   process_token (StartTag (lit ''tr'') as) ((lit ''table'', a, cs) # below) =
     Some ((lit ''tr'', as, []) # (lit ''tbody'', [], []) # (lit ''table'', a, cs) # below)"
  by (simp add: process_token_def mode_table push_element_def)

lemma start_row_in_table_body:
  "below \<noteq> [] \<Longrightarrow>
   process_token (StartTag (lit ''tr'') as) ((lit ''tbody'', a, cs) # below) =
     Some ((lit ''tr'', as, []) # (lit ''tbody'', a, cs) # below)"
  by (simp add: process_token_def mode_table_body push_element_def)

lemma end_row:
  "below \<noteq> [] \<Longrightarrow>
   process_token (EndTag (lit ''tr'')) ((lit ''tr'', a, cs) # (p, pa, pcs) # below) =
     Some ((p, pa, pcs @ [Element (lit ''tr'') a cs]) # below)"
  by (simp add: process_token_def mode_row)

lemma end_table:
  "process_token (EndTag (lit ''table''))
     ((lit ''tbody'', a, cs) # (lit ''table'', ta, tcs) # (p, pa, pcs) # below) =
     Some ((p, pa, pcs @ [Element (lit ''table'') ta (tcs @ [Element (lit ''tbody'') a cs])]) # below)"
  by (simp add: process_token_def mode_table_body)

named_theorems tree \<open>evaluation of the tree construction\<close>

lemmas tree_eval [tree] =
  construct_whitespace construct_text_in_cell construct_text_in_body modes
  start_cell end_cell start_row_in_table start_row_in_table_body end_row end_table
  in_body_elements insert_text_append

lemma construct_name:
  assumes "reset_insertion_mode ((cur, a, cs) # below) = InCell"
  shows "construct_tree (name_tokens data @ ts) ((cur, a, cs) # below) =
         construct_tree ts ((cur, a, add_name data cs) # below)"
proof (cases "get_prop (lit ''name'') data")
  case None
  then show ?thesis by (simp add: name_tokens_def add_name_def)
next
  case (Some n)
  have m: "reset_insertion_mode ((cur, a, k) # below) = InCell" for k
    using assms mode_children[of cur a cs below a k] by simp
  have s: "process_token (StartTag (lit ''div'') as) ((cur, a, k) # below) =
        Some ((lit ''div'', as, []) # (cur, a, k) # below)" for as k
    by (rule start_in_body) (simp_all add: in_body_elements m)
  have e: "process_token (EndTag (lit ''div'')) ((lit ''div'', da, dk) # (cur, a, k) # below) =
        Some ((cur, a, k @ [Element (lit ''div'') da dk]) # below)" for da dk k
    by (rule end_in_body) (simp_all add: in_body_elements m)
  show ?thesis
    by (simp add: name_tokens_def add_name_def Some tree m s e)
qed

lemma construct_header_cell:
  assumes "below \<noteq> []"
  shows "construct_tree (header_cell_tokens tc data @ ts) ((lit ''tr'', a, cs) # below) =
         construct_tree ts ((lit ''tr'', a, add_header_cell tc cs data) # below)"
proof -
  let ?row = "\<lambda>k. (lit ''tr'', a, k) # below"
  have th: "reset_insertion_mode ((lit ''th'', ta, tk) # ?row k) = InCell" for ta tk k
    by (simp add: modes)
  have sp: "reset_insertion_mode ((lit ''span'', sa, sk) # (lit ''th'', ta, tk) # ?row k) = InCell"
    for sa sk ta tk k
    by (simp add: modes)
  have s: "process_token (StartTag (lit ''span'') as) ((lit ''th'', ta, tk) # ?row k) =
        Some ((lit ''span'', as, []) # (lit ''th'', ta, tk) # ?row k)" for as ta tk k
    by (rule start_in_body) (simp_all add: in_body_elements th)
  have e: "process_token (EndTag (lit ''span''))
          ((lit ''span'', sa, sk) # (lit ''th'', ta, tk) # ?row k) =
        Some ((lit ''th'', ta, tk @ [Element (lit ''span'') sa sk]) # ?row k)" for sa sk ta tk k
    by (rule end_in_body) (simp_all add: in_body_elements th)
  show ?thesis
    using assms
    by (simp add: header_cell_tokens_def add_header_cell_def header_cell_element_def
        tree th sp s e construct_name)
qed

lemma construct_header_cells:
  assumes "below \<noteq> []"
  shows "construct_tree (concat (map (header_cell_tokens tc) xs) @ ts) ((lit ''tr'', a, cs) # below) =
         construct_tree ts ((lit ''tr'', a, foldl (add_header_cell tc) cs xs) # below)"
  by (induction xs arbitrary: cs) (simp_all add: construct_header_cell[OF assms])

lemma construct_td:
  assumes "below \<noteq> []"
  shows "construct_tree (td_tokens tc compareColor data @ ts) ((lit ''tr'', a, cs) # below) =
         construct_tree ts ((lit ''tr'', a, add_td tc compareColor cs data) # below)"
  using assms
  by (simp add: td_tokens_def add_td_def td_element_def tree)

lemma construct_tds:
  assumes "below \<noteq> []"
  shows "construct_tree (concat (map (td_tokens tc compareColor) xs) @ ts)
           ((lit ''tr'', a, cs) # below) =
         construct_tree ts ((lit ''tr'', a, foldl (add_td tc compareColor) cs xs) # below)"
  by (induction xs arbitrary: cs) (simp_all add: construct_td[OF assms])

lemma construct_data_row:
  assumes "below \<noteq> []"
  shows "construct_tree (data_row_tokens tc xs data @ ts) ((lit ''tbody'', a, cs) # below) =
         construct_tree ts ((lit ''tbody'', a, add_data_row tc xs cs data) # below)"
  using assms
  by (simp add: data_row_tokens_def add_data_row_def data_row_element_def row_header_element_def
      tree construct_name construct_tds)

lemma construct_data_rows:
  assumes "below \<noteq> []"
  shows "construct_tree (concat (map (data_row_tokens tc xs) ys) @ ts)
           ((lit ''tbody'', a, cs) # below) =
         construct_tree ts ((lit ''tbody'', a, foldl (add_data_row tc xs) cs ys) # below)"
  by (induction ys arbitrary: cs) (simp_all add: construct_data_row[OF assms])

lemma construct_table:
  "construct_tree (table_tokens tc xs ys) [(lit ''html'', [], [])] =
   Some [(lit ''html'', [], table_nodes tc xs ys)]"
proof -
  let ?root = "\<lambda>k. [(lit ''html'', [], k)]"
  have st: "process_token (StartTag n as) (?root k) = Some ((n, as, []) # ?root k)"
    if "in_body_element n \<or> n = lit ''table''" for n as k
    by (rule start_in_body) (simp_all add: that mode_root)
  have e: "process_token (EndTag (lit ''dialog'')) ((lit ''dialog'', da, dk) # ?root k) =
        Some (?root (k @ [Element (lit ''dialog'') da dk]))" for da dk k
    by (rule end_in_body) (simp_all add: in_body_elements mode_root)
  have l: "construct_tree (map Character s) (?root k) = Some (?root (insert_text s k))" for s k
    using construct_text_in_body[of "lit ''html''" "[]" k "[]" s "[]"] by (simp add: mode_root)
  show ?thesis
    unfolding table_tokens_def header_row_tokens_def table_nodes_def table_body_element_def
      header_row_element_def
    by (simp add: tree st e l construct_header_cells construct_data_rows)
qed

text \<open>The markup that \<open>buildTable\<close> writes for entries without markup is parsed into the
  tree \<open>table_nodes\<close>.\<close>

theorem parse_buildTable:
  assumes "\<forall>data \<in> set xAxisData. plain_entry tc data"
    and "\<forall>data \<in> set yAxisData. plain_entry tc data"
  shows "parse_fragment (buildTable tc xAxisData yAxisData) =
         Some (table_nodes tc xAxisData yAxisData)"
  by (simp add: parse_fragment_def tokenize_buildTable[OF assms] construct_table)

subsection \<open>Rows and cells\<close>

lemma querySelectorAll_simps [simp]:
  "querySelectorAll n [] = []"
  "querySelectorAll n (x # xs) = elements_named n x @ querySelectorAll n xs"
  "querySelectorAll n (xs @ ys) = querySelectorAll n xs @ querySelectorAll n ys"
  by (simp_all add: querySelectorAll_def)

lemma elements_named_Element [simp]:
  "elements_named n (Element tag attrs children) =
     (if tag = n then [Element tag attrs children] else []) @ querySelectorAll n children"
  by (simp add: querySelectorAll_def)

declare elements_named.simps(2) [simp del]

lemma querySelectorAll_insert_character [simp]:
  "querySelectorAll n (insert_character c k) = querySelectorAll n k"
  by (induction c k rule: insert_character.induct) simp_all

lemma querySelectorAll_insert_text [simp]:
  "querySelectorAll n (insert_text s k) = querySelectorAll n k"
  by (induction s arbitrary: k) (simp_all add: insert_text_Cons)

lemma filter_insert_character [simp]:
  "filter (is_element_named n) (insert_character c k) = filter (is_element_named n) k"
  by (induction c k rule: insert_character.induct) simp_all

lemma filter_insert_text [simp]:
  "filter (is_element_named n) (insert_text s k) = filter (is_element_named n) k"
  by (induction s arbitrary: k) (simp_all add: insert_text_Cons)

lemma textContent_insert_character [simp]:
  "concat (map textContent (insert_character c k)) = concat (map textContent k) @ [c]"
  by (induction c k rule: insert_character.induct) simp_all

lemma textContent_insert_text [simp]:
  "concat (map textContent (insert_text s k)) = concat (map textContent k) @ s"
  by (induction s arbitrary: k) (simp_all add: insert_text_Cons)

lemma tag_names [simp]:
  "lit ''td'' \<noteq> lit ''tr''" "lit ''th'' \<noteq> lit ''tr''" "lit ''div'' \<noteq> lit ''tr''"
  "lit ''span'' \<noteq> lit ''tr''" "lit ''tbody'' \<noteq> lit ''tr''" "lit ''table'' \<noteq> lit ''tr''"
  "lit ''dialog'' \<noteq> lit ''tr''" "lit ''th'' \<noteq> lit ''td''" "lit ''tr'' \<noteq> lit ''td''"
  by (simp_all add: lit_def ch_def)

lemma rows_add_name [simp]: "querySelectorAll (lit ''tr'') (add_name data k) = querySelectorAll (lit ''tr'') k"
  by (simp add: add_name_def split: option.split)

lemma rows_td_element [simp]: "elements_named (lit ''tr'') (td_element tc c data) = []"
  by (simp add: td_element_def)

lemma rows_header_cell_element [simp]: "elements_named (lit ''tr'') (header_cell_element tc data) = []"
  by (simp add: header_cell_element_def)

lemma rows_row_header_element [simp]: "elements_named (lit ''tr'') (row_header_element tc data) = []"
  by (simp add: row_header_element_def)

lemma rows_tds [simp]:
  "querySelectorAll (lit ''tr'') (foldl (add_td tc c) k xs) = querySelectorAll (lit ''tr'') k"
  by (induction xs arbitrary: k) (simp_all add: add_td_def)

lemma rows_header_cells [simp]:
  "querySelectorAll (lit ''tr'') (foldl (add_header_cell tc) k xs) = querySelectorAll (lit ''tr'') k"
  by (induction xs arbitrary: k) (simp_all add: add_header_cell_def)

lemma rows_data_row_element [simp]:
  "elements_named (lit ''tr'') (data_row_element tc xs data) = [data_row_element tc xs data]"
  by (simp add: data_row_element_def)

lemma rows_header_row_element [simp]:
  "elements_named (lit ''tr'') (header_row_element tc xs) = [header_row_element tc xs]"
  by (simp add: header_row_element_def)

lemma rows_data_rows [simp]:
  "querySelectorAll (lit ''tr'') (foldl (add_data_row tc xs) k ys) =
   querySelectorAll (lit ''tr'') k @ map (data_row_element tc xs) ys"
  by (induction ys arbitrary: k) (simp_all add: add_data_row_def)

lemma rows_table_nodes:
  "table_rows (table_nodes tc xs ys) = header_row_element tc xs # map (data_row_element tc xs) ys"
  by (simp add: table_rows_def table_nodes_def table_body_element_def)

lemma is_td [simp]:
  "is_element_named (lit ''td'') (td_element tc c data)"
  "\<not> is_element_named (lit ''td'') (header_cell_element tc data)"
  "\<not> is_element_named (lit ''td'') (row_header_element tc data)"
  by (simp_all add: td_element_def header_cell_element_def row_header_element_def)

lemma cells_tds [simp]:
  "filter (is_element_named (lit ''td'')) (foldl (add_td tc c) k xs) =
   filter (is_element_named (lit ''td'')) k @ map (td_element tc c) xs"
  by (induction xs arbitrary: k) (simp_all add: add_td_def)

lemma cells_header_cells [simp]:
  "filter (is_element_named (lit ''td'')) (foldl (add_header_cell tc) k xs) =
   filter (is_element_named (lit ''td'')) k"
  by (induction xs arbitrary: k) (simp_all add: add_header_cell_def)

lemma cells_data_row_element:
  "row_cells (data_row_element tc xs data) = map (td_element tc (get_prop (lit ''color'') data)) xs"
  by (simp add: row_cells_def data_row_element_def)

lemma cells_header_row_element:
  "row_cells (header_row_element tc xs) = [Element (lit ''td'') [] []]"
  by (simp add: row_cells_def header_row_element_def)

lemma textContent_td_element [simp]:
  "textContent (td_element tc c data) = td_text tc c data"
  by (simp add: td_element_def)

subsection \<open>Class lists\<close>

lemma fields_Cons:
  "whitespace_fields (c # s) = (if isASCIIWhitespace c then [] # whitespace_fields s
                     else (c # hd (whitespace_fields s)) # tl (whitespace_fields s))"
  by (simp add: whitespace_fields_def)

lemma fields_not_Nil: "whitespace_fields s \<noteq> []"
  by (induction s) (simp_all add: whitespace_fields_def)

lemma fields_token:
  "list_all (\<lambda>c. \<not> isASCIIWhitespace c) t \<Longrightarrow> whitespace_fields (t @ 0x20 # s) = t # whitespace_fields s"
  by (induction t) (simp_all add: fields_Cons isASCIIWhitespace_def)

lemma fields_single: "list_all (\<lambda>c. \<not> isASCIIWhitespace c) t \<Longrightarrow> whitespace_fields t = [t]"
  by (induction t) (simp_all add: fields_Cons, simp add: whitespace_fields_def)

lemma fields_free: "t \<in> set (whitespace_fields s) \<Longrightarrow> list_all (\<lambda>c. \<not> isASCIIWhitespace c) t"
proof (induction s arbitrary: t)
  case Nil
  then show ?case by (simp add: whitespace_fields_def)
next
  case (Cons c s)
  obtain f fs where f: "whitespace_fields s = f # fs" using fields_not_Nil[of s] by (cases "whitespace_fields s") auto
  show ?case
  proof (cases "isASCIIWhitespace c")
    case True
    then show ?thesis using Cons by (auto simp: fields_Cons)
  next
    case False
    then have "t = c # f \<or> t \<in> set fs" using Cons.prems f by (auto simp: fields_Cons)
    then show ?thesis using False Cons.IH f by auto
  qed
qed

lemma split_on_whitespace_serialize:
  "\<forall>t \<in> set ts. t \<noteq> [] \<and> list_all (\<lambda>c. \<not> isASCIIWhitespace c) t \<Longrightarrow>
   split_on_whitespace (serialize_set ts) = ts"
proof (induction ts rule: serialize_set.induct)
  case 1
  show ?case by (simp add: split_on_whitespace_def)
next
  case (2 t)
  then show ?case
    using fields_single[of t] by (simp add: split_on_whitespace_def whitespace_fields_def)
next
  case (3 t u r)
  have "whitespace_fields (t @ 0x20 # serialize_set (u # r)) = t # whitespace_fields (serialize_set (u # r))"
    by (rule fields_token) (use 3 in simp)
  then show ?case using 3 by (simp add: split_on_whitespace_def whitespace_fields_def)
qed

lemma ordered_set_distinct: "distinct xs \<Longrightarrow> ordered_set xs = xs"
  by (simp add: ordered_set_def distinct_remdups_id)

lemma good_tokens_classList: "good_tokens (classList attrs)"
proof (cases "get_attribute (lit ''class'') attrs")
  case None
  then show ?thesis by (simp add: classList_def good_tokens_def)
next
  case (Some v)
  have "t \<noteq> [] \<and> list_all (\<lambda>c. \<not> isASCIIWhitespace c) t" if "t \<in> set (split_on_whitespace v)" for t
    using that fields_free[of t v] by (auto simp: split_on_whitespace_def whitespace_fields_def)
  then show ?thesis using Some by (auto simp: classList_def good_tokens_def ordered_set_def)
qed

lemma get_set_attribute: "get_attribute n (set_attribute n v attrs) = Some v"
proof (cases "n \<in> fst ` set attrs")
  case True
  then have "map_of (map (\<lambda>p. if fst p = n then (n, v) else p) attrs) n = Some v"
    by (induction attrs) auto
  then show ?thesis using True by (simp add: get_attribute_def set_attribute_def)
next
  case False
  then have "map_of attrs n = None" by (simp add: map_of_eq_None_iff)
  then show ?thesis using False by (simp add: get_attribute_def set_attribute_def map_add_def)
qed

lemma classList_set:
  "good_tokens ts \<Longrightarrow> classList (set_attribute (lit ''class'') (serialize_set ts) attrs) = ts"
  by (simp add: classList_def get_set_attribute good_tokens_def split_on_whitespace_serialize
      ordered_set_distinct)

lemma doesNotMeet_token:
  "lit ''doesNotMeet'' \<noteq> [] \<and> list_all (\<lambda>c. \<not> isASCIIWhitespace c) (lit ''doesNotMeet'')"
  by (simp add: lit_def ch_def isASCIIWhitespace_def)

lemma classList_add_contains:
  "lit ''doesNotMeet'' \<in> set (classList (classList_add (lit ''doesNotMeet'') attrs))"
proof -
  let ?ts = "if lit ''doesNotMeet'' \<in> set (classList attrs) then classList attrs
             else classList attrs @ [lit ''doesNotMeet'']"
  have "good_tokens ?ts"
    using good_tokens_classList[of attrs] doesNotMeet_token by (auto simp: good_tokens_def)
  from classList_set[OF this] show ?thesis by (auto simp: classList_add_def)
qed

lemma classList_remove_contains:
  "lit ''doesNotMeet'' \<notin> set (classList (classList_remove (lit ''doesNotMeet'') attrs))"
proof (cases "get_attribute (lit ''class'') attrs = None \<and> classList attrs = []")
  case True
  then show ?thesis by (simp add: classList_remove_def)
next
  case False
  let ?ts = "filter (\<lambda>t. t \<noteq> lit ''doesNotMeet'') (classList attrs)"
  have "good_tokens ?ts"
    using good_tokens_classList[of attrs] by (auto simp: good_tokens_def)
  from classList_set[OF this] show ?thesis using False by (auto simp: classList_remove_def)
qed

subsection \<open>Flagged cells\<close>

lemma textContent_set_cell [simp]: "textContent (set_cell t n) = textContent n"
proof (induction n)
  case (Text s)
  show ?case by simp
next
  case (Element name attrs children)
  then show ?case by (simp add: Let_def cong: map_cong)
qed

lemma is_element_named_set_cell [simp]:
  "is_element_named n (set_cell t x) = is_element_named n x"
  by (cases x) (simp_all add: Let_def)

lemma elements_named_set_cell:
  "elements_named n (set_cell t x) = map (set_cell t) (elements_named n x)"
proof (induction x)
  case (Text s)
  show ?case by simp
next
  case (Element name attrs children)
  then show ?case by (simp add: Let_def querySelectorAll_def map_concat cong: map_cong)
qed

lemma querySelectorAll_setCellContrast:
  "querySelectorAll n (setCellContrast t nodes) = map (set_cell t) (querySelectorAll n nodes)"
  by (induction nodes) (simp_all add: setCellContrast_def elements_named_set_cell)

lemma cells_set_cell: "row_cells (set_cell t r) = map (set_cell t) (row_cells r)"
  by (cases r) (simp_all add: row_cells_def Let_def filter_map comp_def)

lemma doesNotMeet_set_cell:
  "is_element_named (lit ''td'') c \<Longrightarrow>
   doesNotMeet (set_cell t c) \<longleftrightarrow> less_than (parseFloat (textContent c)) t"
  by (cases c) (simp_all add: Let_def classList_add_contains classList_remove_contains)

lemma elements_named_named: "c \<in> set (elements_named n x) \<Longrightarrow> is_element_named n c"
proof (induction x arbitrary: c)
  case (Text s)
  then show ?case by simp
next
  case (Element name attrs children)
  then show ?case by (auto simp: querySelectorAll_def split: if_splits)
qed

lemma querySelectorAll_named: "c \<in> set (querySelectorAll n nodes) \<Longrightarrow> is_element_named n c"
  by (auto simp: querySelectorAll_def elements_named_named)

lemma flags_of_cells:
  "map doesNotMeet (querySelectorAll (lit ''td'') (setCellContrast t nodes)) =
   map (\<lambda>c. less_than (parseFloat (textContent c)) t) (querySelectorAll (lit ''td'') nodes)"
  unfolding querySelectorAll_setCellContrast
  by (simp add: comp_def doesNotMeet_set_cell querySelectorAll_named cong: map_cong)

lemma whitespace_trimmed: "list_all (\<lambda>c. c = CHR ''\<newline>'' \<or> c = CHR '' '') s \<Longrightarrow> list_all isTrimmed (lit s)"
  by (induction s) (auto simp: lit_def ch_def isTrimmed_def isWhiteSpace_def isLineTerminator_def)

lemma parseFloat_td_text:
  assumes "0 \<le> readability tc (get_prop (lit ''color'') data) c"
  shows "parseFloat (td_text tc c data) =
         Number (real_of_int \<lfloor>readability tc (get_prop (lit ''color'') data) c * 100 + 1 / 2\<rfloor> / 100)"
  unfolding td_text_def
  by (rule parseFloat_toFixed[OF assms]) (simp_all add: whitespace_trimmed)

lemma parseFloat_empty: "parseFloat [] = NaN"
  by (simp add: parseFloat_def unsigned_decimal_def isPrefix_def lit_def)

text \<open>The numbers in the cells of the rows of such a table, and the flags that
  \<open>setCellContrast\<close> gives them. The first row is the header row, whose only \<open>td\<close> is the
  empty corner cell.\<close>

lemma table_cell_values:
  assumes "\<forall>data \<in> set xAxisData. plain_entry tc data"
    and "\<forall>data \<in> set yAxisData. plain_entry tc data"
    and "\<forall>xd \<in> set xAxisData. \<forall>yd \<in> set yAxisData.
           0 \<le> readability tc (get_prop (lit ''color'') xd) (get_prop (lit ''color'') yd)"
  shows "\<exists>dom. parse_fragment (buildTable tc xAxisData yAxisData) = Some dom \<and>
           map (map (parseFloat \<circ> textContent) \<circ> row_cells) (table_rows dom) =
             [NaN] # map (\<lambda>yd. map (\<lambda>xd. Number (real_of_int
                       \<lfloor>readability tc (get_prop (lit ''color'') xd) (get_prop (lit ''color'') yd)
                          * 100 + 1 / 2\<rfloor> / 100)) xAxisData) yAxisData"
proof -
  have "map (map (parseFloat \<circ> textContent) \<circ> row_cells) (table_rows (table_nodes tc xAxisData yAxisData)) =
        [NaN] # map (\<lambda>yd. map (\<lambda>xd. Number (real_of_int
                       \<lfloor>readability tc (get_prop (lit ''color'') xd) (get_prop (lit ''color'') yd)
                          * 100 + 1 / 2\<rfloor> / 100)) xAxisData) yAxisData"
    using assms(3)
    by (simp add: rows_table_nodes cells_header_row_element cells_data_row_element
        parseFloat_empty parseFloat_td_text comp_def cong: map_cong)
  then show ?thesis using parse_buildTable[OF assms(1,2)] by simp
qed

lemma table_cell_flags:
  assumes "\<forall>data \<in> set xAxisData. plain_entry tc data"
    and "\<forall>data \<in> set yAxisData. plain_entry tc data"
    and "\<forall>xd \<in> set xAxisData. \<forall>yd \<in> set yAxisData.
           0 \<le> readability tc (get_prop (lit ''color'') xd) (get_prop (lit ''color'') yd)"
  shows "\<exists>dom. parse_fragment (buildTable tc xAxisData yAxisData) = Some dom \<and>
           map (map doesNotMeet \<circ> row_cells) (table_rows (setCellContrast contrast dom)) =
             [False] # map (\<lambda>yd. map (\<lambda>xd. real_of_int
                       \<lfloor>readability tc (get_prop (lit ''color'') xd) (get_prop (lit ''color'') yd)
                          * 100 + 1 / 2\<rfloor> / 100 < contrast) xAxisData) yAxisData"
proof -
  have "map (map doesNotMeet \<circ> row_cells)
          (table_rows (setCellContrast contrast (table_nodes tc xAxisData yAxisData))) =
        [False] # map (\<lambda>yd. map (\<lambda>xd. real_of_int
                       \<lfloor>readability tc (get_prop (lit ''color'') xd) (get_prop (lit ''color'') yd)
                          * 100 + 1 / 2\<rfloor> / 100 < contrast) xAxisData) yAxisData"
    using assms(3)
    by (simp add: table_rows_def querySelectorAll_setCellContrast rows_table_nodes[unfolded table_rows_def]
        cells_set_cell cells_header_row_element cells_data_row_element doesNotMeet_set_cell
        parseFloat_empty parseFloat_td_text comp_def classList_remove_contains
        classList_add_contains cong: map_cong)
  then show ?thesis using parse_buildTable[OF assms(1,2)] by simp
qed

lemma example_ratio:
  "readability example_tinycolor (Some (lit ''#0d8764'')) (Some (lit ''#fff'')) = 4.4999"
  by (simp add: example_tinycolor_def lit_def ch_def)

lemma example_plain_entries:
  "plain_entry example_tinycolor [(lit ''color'', lit ''#0d8764'')]"
  "plain_entry example_tinycolor [(lit ''color'', lit ''#fff'')]"
  "plain_entry example_tinycolor [(lit ''name'', lit ''White''), (lit ''color'', lit ''#fff'')]"
  by (simp_all add: plain_entry_def example_tinycolor_def get_prop_def interpolate_def
      plain_text_def plain_value_def lit_def ch_def)

lemma example_ratio_same: "readability example_tinycolor a a = 1"
  by (simp add: example_tinycolor_def)

lemma get_color_named:
  "get_prop (lit ''color'') [(lit ''name'', n), (lit ''color'', c)] = Some c"
  by (simp add: get_prop_def lit_def ch_def)

lemma example_ratios:
  "0 \<le> readability example_tinycolor a b" "readability example_tinycolor a b < 10 ^ 21"
  by (simp_all add: example_tinycolor_def)

text \<open>
  C6, as the specification states it: the cell in row \<open>i\<close> and column \<open>j\<close> carries the
  ratio \<open>readability(x[j].color, y[i].color)\<close>. The cell carries the text that
  \<open>toFixed(2)\<close> writes for the ratio: for a ratio of 4.4999 the cell holds 4.50.
\<close>

theorem C6_ratio_counterexample:
  "\<exists>dom. parse_fragment (buildTable example_tinycolor [[(lit ''color'', lit ''#0d8764'')]]
                           [[(lit ''color'', lit ''#fff'')]]) = Some dom \<and>
         map (map (parseFloat \<circ> textContent) \<circ> row_cells) (table_rows dom) = [[NaN], [Number 4.5]] \<and>
         readability example_tinycolor (Some (lit ''#0d8764'')) (Some (lit ''#fff'')) \<noteq> 4.5"
  using table_cell_values[of "[[(lit ''color'', lit ''#0d8764'')]]" example_tinycolor
      "[[(lit ''color'', lit ''#fff'')]]"]
  by (simp add: example_plain_entries example_ratios example_ratio get_prop_def)

text \<open>
  C6, amended: for entries without markup in their names, colors and hex strings, and
  ratios from 0 up to \<open>10 ^ 21\<close>, the markup of \<open>buildTable\<close> is parsed into a tree whose
  rows are the header row, with the empty corner cell, and one row for each entry of \<open>y\<close>,
  in the order of \<open>y\<close>; the cells of a data row are one for each entry of \<open>x\<close>, in the order
  of \<open>x\<close>; and the number in the cell of row \<open>i\<close> and column \<open>j\<close> is the ratio
  \<open>readability(x[j].color, y[i].color)\<close> rounded to two decimals, halves upwards.
\<close>

theorem C6_matrix_shape:
  assumes "\<forall>data \<in> set x. plain_entry tc data"
    and "\<forall>data \<in> set y. plain_entry tc data"
    and "\<forall>xd \<in> set x. \<forall>yd \<in> set y.
           0 \<le> readability tc (get_prop (lit ''color'') xd) (get_prop (lit ''color'') yd) \<and>
           readability tc (get_prop (lit ''color'') xd) (get_prop (lit ''color'') yd) < 10 ^ 21"
  shows "\<exists>dom. parse_fragment (buildTable tc x y) = Some dom \<and>
           map (map (parseFloat \<circ> textContent) \<circ> row_cells) (table_rows dom) =
             [NaN] # map (\<lambda>yd. map (\<lambda>xd. Number (real_of_int
                       \<lfloor>readability tc (get_prop (lit ''color'') xd) (get_prop (lit ''color'') yd)
                          * 100 + 1 / 2\<rfloor> / 100)) x) y"
  using assms by (intro table_cell_values) auto

theorem C6_matrix_shape_witness:
  "\<exists>dom. parse_fragment (buildTable example_tinycolor
            [[(lit ''color'', lit ''#0d8764'')], [(lit ''name'', lit ''White''), (lit ''color'', lit ''#fff'')]]
            [[(lit ''color'', lit ''#fff'')]]) = Some dom \<and>
         map (map (parseFloat \<circ> textContent) \<circ> row_cells) (table_rows dom) =
           [[NaN], [Number 4.5, Number 1]]"
  using C6_matrix_shape[of
      "[[(lit ''color'', lit ''#0d8764'')], [(lit ''name'', lit ''White''), (lit ''color'', lit ''#fff'')]]"
      example_tinycolor "[[(lit ''color'', lit ''#fff'')]]"]
  by (simp add: example_plain_entries example_ratios example_ratio example_ratio_same
      get_color_named)
     (simp add: get_prop_def example_ratio example_ratio_same)

text \<open>
  C4, as the specification states it: a cell is flagged if and only if its ratio, at full
  precision, is below the threshold. \<open>setCellContrast\<close> reads the number back from the
  text of the cell, which has two decimals: a ratio of 4.4999 is shown as 4.50, and under
  the threshold 4.5 the cell is not flagged although its ratio is below 4.5.
\<close>

theorem C4_full_precision_counterexample:
  "readability example_tinycolor (Some (lit ''#0d8764'')) (Some (lit ''#fff'')) < 4.5 \<and>
   (\<exists>dom. parse_fragment (buildTable example_tinycolor [[(lit ''color'', lit ''#0d8764'')]]
                           [[(lit ''color'', lit ''#fff'')]]) = Some dom \<and>
          map (map doesNotMeet \<circ> row_cells) (table_rows (setCellContrast 4.5 dom)) = [[False], [False]])"
  using table_cell_flags[of "[[(lit ''color'', lit ''#0d8764'')]]" example_tinycolor
      "[[(lit ''color'', lit ''#fff'')]]" "4.5"]
  by (simp add: example_plain_entries example_ratios example_ratio get_prop_def)

text \<open>
  C4, amended: \<open>setCellContrast\<close> with threshold \<open>t\<close> flags a \<open>td\<close> of the container, whatever
  the container holds, if and only if the number that \<open>parseFloat\<close> reads in the text of
  the cell is less than \<open>t\<close>. In a table built from entries without markup, with ratios
  from 0 up to \<open>10 ^ 21\<close>, the cell in row \<open>i\<close> and column \<open>j\<close> is therefore flagged if and
  only if its ratio rounded to two decimals, the number its text shows, is less than \<open>t\<close>;
  the corner cell of the header row is not flagged.
\<close>

theorem C4_displayed_value_compared:
  assumes "\<forall>data \<in> set x. plain_entry tc data"
    and "\<forall>data \<in> set y. plain_entry tc data"
    and "\<forall>xd \<in> set x. \<forall>yd \<in> set y.
           0 \<le> readability tc (get_prop (lit ''color'') xd) (get_prop (lit ''color'') yd) \<and>
           readability tc (get_prop (lit ''color'') xd) (get_prop (lit ''color'') yd) < 10 ^ 21"
  shows "(\<forall>nodes. map doesNotMeet (querySelectorAll (lit ''td'') (setCellContrast t nodes)) =
            map (\<lambda>c. less_than (parseFloat (textContent c)) t)
              (querySelectorAll (lit ''td'') nodes)) \<and>
         (\<exists>dom. parse_fragment (buildTable tc x y) = Some dom \<and>
            map (map doesNotMeet \<circ> row_cells) (table_rows (setCellContrast t dom)) =
              [False] # map (\<lambda>yd. map (\<lambda>xd. real_of_int
                       \<lfloor>readability tc (get_prop (lit ''color'') xd) (get_prop (lit ''color'') yd)
                          * 100 + 1 / 2\<rfloor> / 100 < t) x) y)"
proof
  show "\<forall>nodes. map doesNotMeet (querySelectorAll (lit ''td'') (setCellContrast t nodes)) =
            map (\<lambda>c. less_than (parseFloat (textContent c)) t)
              (querySelectorAll (lit ''td'') nodes)"
    by (simp add: flags_of_cells)
  show "\<exists>dom. parse_fragment (buildTable tc x y) = Some dom \<and>
            map (map doesNotMeet \<circ> row_cells) (table_rows (setCellContrast t dom)) =
              [False] # map (\<lambda>yd. map (\<lambda>xd. real_of_int
                       \<lfloor>readability tc (get_prop (lit ''color'') xd) (get_prop (lit ''color'') yd)
                          * 100 + 1 / 2\<rfloor> / 100 < t) x) y"
    using assms by (intro table_cell_flags) auto
qed

theorem C4_displayed_value_compared_witness:
  "\<exists>dom. parse_fragment (buildTable example_tinycolor [[(lit ''color'', lit ''#0d8764'')]]
                          [[(lit ''color'', lit ''#fff'')]]) = Some dom \<and>
         map (map doesNotMeet \<circ> row_cells) (table_rows (setCellContrast 7 dom)) = [[False], [True]]"
  using C4_displayed_value_compared[of "[[(lit ''color'', lit ''#0d8764'')]]" example_tinycolor
      "[[(lit ''color'', lit ''#fff'')]]" 7]
  by (simp add: example_plain_entries example_ratios example_ratio get_prop_def)

section \<open>Properties of the codec\<close>

lemma unat_jschar_lt: "unat (c::jschar) < 65536"
  using unsigned_less[of c, where 'a=nat] by simp

lemma hex_value_upper: "n < 16 \<Longrightarrow> hex_value (unat (hex_upper n)) = Some n"
proof (cases "n < 10")
  case True
  have "unat (hex_upper n) = 0x30 + n"
    unfolding hex_upper_def using True unat_of_nat_jschar[of "0x30 + n"] by simp
  with True show ?thesis by (simp add: hex_value_def)
next
  case False
  assume "n < 16"
  have "unat (hex_upper n) = 0x41 + (n - 10)"
    unfolding hex_upper_def using False \<open>n < 16\<close> unat_of_nat_jschar[of "0x41 + (n - 10)"] by simp
  with False \<open>n < 16\<close> show ?thesis by (simp add: hex_value_def)
qed

lemma take_escapes_percent_byte:
  assumes "b < 256"
  shows "take_escapes (Suc n) (percent_byte b @ s) =
     (case take_escapes n s of None \<Rightarrow> None | Some (bs, r) \<Rightarrow> Some (b # bs, r))"
proof -
  have 1: "b div 16 < 16" using assms by simp
  have 2: "b mod 16 < 16" by simp
  show ?thesis
    by (simp add: percent_byte_def hex_value_upper[OF 1] hex_value_upper[OF 2]
        split: option.split)
qed

lemma take_escapes_concat:
  "\<forall>b \<in> set bs. b < 256 \<Longrightarrow>
   take_escapes (length bs) (concat (map percent_byte bs) @ s) = Some (bs, s)"
  by (induction bs) (simp_all add: take_escapes_percent_byte del: take_escapes.simps(2))

lemma base64_digits:
  fixes cp :: nat
  obtains q1 d0 q2 d1 q3 d2 where
    "cp = q1 * 0x40 + d0" "q1 = q2 * 0x40 + d1" "q2 = q3 * 0x40 + d2"
    "d0 < 0x40" "d1 < 0x40" "d2 < 0x40"
    "cp div 0x40 = q1" "cp mod 0x40 = d0" "cp div 0x1000 = q2" "cp div 0x40 mod 0x40 = d1"
    "cp div 0x40000 = q3" "cp div 0x1000 mod 0x40 = d2" "q1 mod 0x40 = d1" "q2 mod 0x40 = d2"
proof -
  have a: "cp div 0x1000 = cp div 0x40 div 0x40"
    by (simp add: div_mult2_eq[symmetric])
  have b: "cp div 0x40000 = cp div 0x40 div 0x40 div 0x40"
    by (simp add: div_mult2_eq[symmetric])
  show ?thesis
    by (rule that[of "cp div 0x40" "cp mod 0x40" "cp div 0x40 div 0x40" "cp div 0x40 mod 0x40"
          "cp div 0x40 div 0x40 div 0x40" "cp div 0x40 div 0x40 mod 0x40"])
       (simp_all add: a b)
qed

lemma utf8_encode_1: "cp < 0x80 \<Longrightarrow> utf8_encode cp = [cp]"
  by (simp add: utf8_encode_def)

lemma utf8_encode_bytes: "cp < 0x110000 \<Longrightarrow> b \<in> set (utf8_encode cp) \<Longrightarrow> b < 256"
proof -
  assume cp: "cp < 0x110000" and b: "b \<in> set (utf8_encode cp)"
  obtain q1 d0 q2 d1 q3 d2 where d:
    "cp = q1 * 0x40 + d0" "q1 = q2 * 0x40 + d1" "q2 = q3 * 0x40 + d2"
    "d0 < 0x40" "d1 < 0x40" "d2 < 0x40"
    and e: "cp div 0x40 = q1" "cp mod 0x40 = d0" "cp div 0x1000 = q2" "cp div 0x40 mod 0x40 = d1"
    "cp div 0x40000 = q3" "cp div 0x1000 mod 0x40 = d2" "q1 mod 0x40 = d1" "q2 mod 0x40 = d2"
    by (rule base64_digits)
  from b have "b \<in> set (if cp < 0x80 then [cp]
      else if cp < 0x800 then [0xC0 + q1, 0x80 + d0]
      else if cp < 0x10000 then [0xE0 + q2, 0x80 + d1, 0x80 + d0]
      else [0xF0 + q3, 0x80 + d2, 0x80 + d1, 0x80 + d0])"
    unfolding utf8_encode_def e by simp
  moreover from cp d have "q1 < 0x4400 \<and> q2 < 0x110 \<and> q3 < 0x10" by linarith
  moreover from d have "cp < 0x800 \<Longrightarrow> q1 < 0x20" by linarith
  moreover from d have "cp < 0x10000 \<Longrightarrow> q2 < 0x10" by linarith
  ultimately show ?thesis using \<open>d0 < 0x40\<close> \<open>d1 < 0x40\<close> \<open>d2 < 0x40\<close>
    by (auto split: if_splits)
qed

lemma utf8_code_point_encode:
  assumes s: "isScalarValue cp" and n: "0x80 \<le> cp"
  shows "utf8_code_point (utf8_encode cp) = Some cp \<and>
         sequence_length (hd (utf8_encode cp)) = length (utf8_encode cp) \<and>
         0x80 \<le> hd (utf8_encode cp)"
proof -
  obtain q1 d0 q2 d1 q3 d2 where d:
    "cp = q1 * 0x40 + d0" "q1 = q2 * 0x40 + d1" "q2 = q3 * 0x40 + d2"
    "d0 < 0x40" "d1 < 0x40" "d2 < 0x40"
    and e: "cp div 0x40 = q1" "cp mod 0x40 = d0" "cp div 0x1000 = q2" "cp div 0x40 mod 0x40 = d1"
    "cp div 0x40000 = q3" "cp div 0x1000 mod 0x40 = d2" "q1 mod 0x40 = d1" "q2 mod 0x40 = d2"
    by (rule base64_digits)
  have enc: "utf8_encode cp = (if cp < 0x800 then [0xC0 + q1, 0x80 + d0]
      else if cp < 0x10000 then [0xE0 + q2, 0x80 + d1, 0x80 + d0]
      else [0xF0 + q3, 0x80 + d2, 0x80 + d1, 0x80 + d0])"
    using n unfolding utf8_encode_def e by simp
  consider (two) "cp < 0x800" | (three) "0x800 \<le> cp" "cp < 0x10000"
    | (four) "0x10000 \<le> cp" by linarith
  then show ?thesis
  proof cases
    case two
    from two n d have q: "2 \<le> q1" "q1 \<le> 31" by linarith+
    from d have r: "q1 * 0x40 + d0 = cp" by simp
    from two q r \<open>d0 < 0x40\<close> show ?thesis
      by (simp add: enc utf8_code_point_def sequence_length_def isContinuation_def)
  next
    case three
    from three d have q: "q2 \<le> 15" by linarith
    from three d have a: "q2 = 0 \<Longrightarrow> 0x20 \<le> d1" by linarith
    from three d s have b: "q2 = 13 \<Longrightarrow> d1 \<le> 0x1F"
      unfolding isScalarValue_def by linarith
    from d have r: "q2 * 0x1000 + d1 * 0x40 + d0 = cp" by linarith
    from three q a b r \<open>d0 < 0x40\<close> \<open>d1 < 0x40\<close> show ?thesis
      by (simp add: enc utf8_code_point_def sequence_length_def isContinuation_def
          second_byte_ok_def)
  next
    case four
    from s have lt: "cp < 0x110000" by (simp add: isScalarValue_def)
    from lt four d have q: "q3 \<le> 4" by linarith
    from four d have a: "q3 = 0 \<Longrightarrow> 0x10 \<le> d2" by linarith
    from lt d have b: "q3 = 4 \<Longrightarrow> d2 \<le> 0xF" by linarith
    from d have r: "q3 * 0x40000 + d2 * 0x1000 + d1 * 0x40 + d0 = cp" by linarith
    from four q a b r \<open>d0 < 0x40\<close> \<open>d1 < 0x40\<close> \<open>d2 < 0x40\<close> show ?thesis
      by (simp add: enc utf8_code_point_def sequence_length_def isContinuation_def
          second_byte_ok_def)
  qed
qed

lemma isLeadSurrogate_unat: "isLeadSurrogate c \<longleftrightarrow> 0xD800 \<le> unat c \<and> unat c \<le> 0xDBFF"
  by (simp add: isLeadSurrogate_def word_le_nat_alt)

lemma isTrailSurrogate_unat: "isTrailSurrogate c \<longleftrightarrow> 0xDC00 \<le> unat c \<and> unat c \<le> 0xDFFF"
  by (simp add: isTrailSurrogate_def word_le_nat_alt)

lemma utf16_encode_unit: "utf16_encode (unat (c::jschar)) = [c]"
  using unat_jschar_lt[of c] by (simp add: utf16_encode_def)

lemma isScalarValue_unit:
  "\<not> isLeadSurrogate c \<Longrightarrow> \<not> isTrailSurrogate c \<Longrightarrow> isScalarValue (unat c)"
  using unat_jschar_lt[of c]
  by (auto simp: isScalarValue_def isLeadSurrogate_unat isTrailSurrogate_unat)

lemma pair_code_point_props:
  assumes "isLeadSurrogate c" "isTrailSurrogate d"
  shows "utf16_encode (pair_code_point c d) = [c, d]"
    and "isScalarValue (pair_code_point c d)"
    and "0x10000 \<le> pair_code_point c d"
proof -
  define l where "l = unat c - 0xD800"
  define t where "t = unat d - 0xDC00"
  from assms have b: "l < 0x400" "t < 0x400" "unat c = 0xD800 + l" "unat d = 0xDC00 + t"
    by (auto simp: l_def t_def isLeadSurrogate_unat isTrailSurrogate_unat)
  have p: "pair_code_point c d = l * 0x400 + t + 0x10000"
    by (simp add: pair_code_point_def l_def t_def)
  have dv: "(l * 0x400 + t) div 0x400 = l" "(l * 0x400 + t) mod 0x400 = t"
    using b by simp_all
  have c: "of_nat (0xD800 + l) = c" "of_nat (0xDC00 + t) = d"
    using b(3,4)[symmetric] by (simp_all del: of_nat_add of_nat_numeral)
  show "utf16_encode (pair_code_point c d) = [c, d]"
    unfolding utf16_encode_def p using dv c by (simp del: of_nat_add of_nat_numeral)
  from b show "isScalarValue (pair_code_point c d)"
    unfolding p isScalarValue_def by simp
  show "0x10000 \<le> pair_code_point c d" unfolding p by simp
qed

lemma decodeURIComponent_percent_byte:
  "decodeURIComponent (percent_byte b @ s) =
     (case take_escapes 1 (percent_byte b @ s) of
           None \<Rightarrow> Inl URIError
         | Some (first, s1) \<Rightarrow>
             let b = hd first in
             if b < 0x80 then
               (case decodeURIComponent s1 of Inl e \<Rightarrow> Inl e | Inr r \<Rightarrow> Inr (of_nat b # r))
             else if sequence_length b = 0 then Inl URIError
             else
               (case take_escapes (sequence_length b - 1) s1 of
                  None \<Rightarrow> Inl URIError
                | Some (others, s2) \<Rightarrow>
                    (case utf8_code_point (b # others) of
                       None \<Rightarrow> Inl URIError
                     | Some cp \<Rightarrow>
                         (case decodeURIComponent s2 of
                            Inl e \<Rightarrow> Inl e
                          | Inr r \<Rightarrow> Inr (utf16_encode cp @ r)))))"
proof -
  obtain t where t: "percent_byte b @ s = ch CHR ''%'' # t"
    by (simp add: percent_byte_def)
  show ?thesis unfolding t by (subst decodeURIComponent.simps(2)) simp
qed

lemma decodeURIComponent_encoded:
  assumes s: "isScalarValue cp"
  shows "decodeURIComponent (concat (map percent_byte (utf8_encode cp)) @ r) =
     (case decodeURIComponent r of Inl e \<Rightarrow> Inl e | Inr r' \<Rightarrow> Inr (utf16_encode cp @ r'))"
proof (cases "cp < 0x80")
  case True
  then have t: "take_escapes (Suc 0) (percent_byte cp @ r) = Some ([cp], r)"
    by (subst take_escapes_percent_byte) simp_all
  from True show ?thesis
    by (simp add: utf8_encode_1 decodeURIComponent_percent_byte t utf16_encode_def
        del: take_escapes.simps split: sum.split)
next
  case False
  then have n: "0x80 \<le> cp" by simp
  note f = utf8_code_point_encode[OF s n]
  from s have lt: "cp < 0x110000" by (simp add: isScalarValue_def)
  obtain b others where e: "utf8_encode cp = b # others"
    using f by (cases "utf8_encode cp") (auto simp: utf8_code_point_def)
  have bytes: "b < 256" "\<forall>x \<in> set others. x < 256"
    using utf8_encode_bytes[OF lt] e by auto
  have t1: "take_escapes (Suc 0) (percent_byte b @ concat (map percent_byte others) @ r)
        = Some ([b], concat (map percent_byte others) @ r)"
    using bytes(1) by (subst take_escapes_percent_byte) simp_all
  have t2: "take_escapes (length others) (concat (map percent_byte others) @ r) = Some (others, r)"
    by (rule take_escapes_concat[OF bytes(2)])
  from f e have g: "utf8_code_point (b # others) = Some cp"
    "sequence_length b = Suc (length others)" "0x80 \<le> b" by simp_all
  show ?thesis
    using g by (simp add: e decodeURIComponent_percent_byte t1 t2 del: take_escapes.simps)
qed

lemma uriUnreserved_not_percent: "uriUnreserved c \<Longrightarrow> c \<noteq> ch CHR ''%''"
  by (auto simp: uriUnreserved_def isAlnum_def lit_def ch_def)

theorem decode_encode:
  "encodeURIComponent s = Inr e \<Longrightarrow> decodeURIComponent e = Inr s"
proof (induction s arbitrary: e rule: encodeURIComponent.induct)
  case 1
  then show ?case by simp
next
  case (2 c cs)
  show ?case
  proof (cases "uriUnreserved c")
    case True
    with 2 show ?thesis
      by (auto simp: uriUnreserved_not_percent split: sum.splits)
  next
    case u: False
    show ?thesis
    proof (cases "isTrailSurrogate c")
      case True
      with u 2 show ?thesis by simp
    next
      case t: False
      show ?thesis
      proof (cases "isLeadSurrogate c")
        case True
        with u t 2(4) obtain d ds r where d: "cs = d # ds" "isTrailSurrogate d"
          "encodeURIComponent ds = Inr r"
          "e = concat (map percent_byte (utf8_encode (pair_code_point c d))) @ r"
          by (auto split: list.splits if_splits sum.splits)
        from 2(2)[OF u t True d(1) d(2) d(3)] have "decodeURIComponent r = Inr ds" .
        then show ?thesis
          unfolding d
          by (simp add: decodeURIComponent_encoded pair_code_point_props[OF True d(2)])
      next
        case False
        with u t 2(4) obtain r where r: "encodeURIComponent cs = Inr r"
          "e = concat (map percent_byte (utf8_encode (unat c))) @ r"
          by (auto split: sum.splits)
        from 2(3)[OF u t False r(1)] have "decodeURIComponent r = Inr cs" .
        then show ?thesis
          unfolding r
          by (simp add: decodeURIComponent_encoded isScalarValue_unit[OF False t] utf16_encode_unit)
      qed
    qed
  qed
qed

lemma isScalarValue_FFFD: "isScalarValue 0xFFFD"
  by (simp add: isScalarValue_def)

lemma to_scalar_values_scalar: "cp \<in> set (to_scalar_values s) \<Longrightarrow> isScalarValue cp"
proof (induction s arbitrary: cp rule: to_scalar_values.induct)
  case 1
  then show ?case by simp
next
  case (2 c cs)
  show ?case
  proof (cases "isLeadSurrogate c")
    case True
    show ?thesis
    proof (cases cs)
      case Nil
      with True "2.prems" show ?thesis by (simp add: isScalarValue_FFFD)
    next
      case (Cons d ds)
      show ?thesis
      proof (cases "isTrailSurrogate d")
        case t: True
        from True Cons t "2.prems" have "cp = pair_code_point c d \<or> cp \<in> set (to_scalar_values ds)"
          by simp
        then show ?thesis
          using pair_code_point_props(2)[OF True t] "2.IH"(1)[OF True Cons t] by blast
      next
        case f: False
        from True Cons f "2.prems" have "cp = 0xFFFD \<or> cp \<in> set (to_scalar_values cs)"
          by simp
        then show ?thesis
          using isScalarValue_FFFD "2.IH"(2)[OF True Cons f] by blast
      qed
    qed
  next
    case l: False
    show ?thesis
    proof (cases "isTrailSurrogate c")
      case True
      with l "2.prems" have "cp = 0xFFFD \<or> cp \<in> set (to_scalar_values cs)" by simp
      then show ?thesis using isScalarValue_FFFD "2.IH"(3)[OF l True] by blast
    next
      case False
      with l "2.prems" have "cp = unat c \<or> cp \<in> set (to_scalar_values cs)" by simp
      then show ?thesis using isScalarValue_unit[OF l False] "2.IH"(4)[OF l False] by blast
    qed
  qed
qed

lemma utf8_decode_one_code_point:
  "utf8_code_point bs = Some cp \<Longrightarrow> utf8_decode_one (bs @ rest) = (cp, length bs)"
  by (auto simp: utf8_code_point_def utf8_decode_one_def split: list.splits if_splits)

lemma utf8_decode_one_encode:
  assumes "isScalarValue cp"
  shows "utf8_decode_one (utf8_encode cp @ rest) = (cp, length (utf8_encode cp))"
proof (cases "cp < 0x80")
  case True
  then show ?thesis by (simp add: utf8_encode_1 utf8_decode_one_def)
next
  case False
  then have "0x80 \<le> cp" by simp
  from utf8_code_point_encode[OF assms this] show ?thesis
    by (simp add: utf8_decode_one_code_point)
qed

lemma utf8_encode_not_Nil: "utf8_encode cp \<noteq> []"
  by (simp add: utf8_encode_def)

lemma utf8_decode_encode:
  "isScalarValue cp \<Longrightarrow> utf8_decode (utf8_encode cp @ rest) = utf16_encode cp @ utf8_decode rest"
  by (subst utf8_decode.simps) (simp add: utf8_decode_one_encode utf8_encode_not_Nil)

lemma utf8_decode_Nil: "utf8_decode [] = []"
  by (subst utf8_decode.simps) simp

lemma utf8_decode_concat:
  "\<forall>cp \<in> set cps. isScalarValue cp \<Longrightarrow>
   utf8_decode (concat (map utf8_encode cps)) = concat (map utf16_encode cps)"
  by (induction cps) (simp_all add: utf8_decode_Nil utf8_decode_encode)

lemma utf8_decode_utf8_bytes: "utf8_decode (utf8_bytes s) = USVString s"
  unfolding utf8_bytes_def USVString_def
  by (rule utf8_decode_concat) (simp add: to_scalar_values_scalar)

lemma utf8_decode_one_scalar: "isScalarValue (fst (utf8_decode_one bs))"
proof -
  have a: "\<And>b0 b1 b2. 0xE0 \<le> b0 \<Longrightarrow> b0 \<le> 0xEF \<Longrightarrow> second_byte_ok b0 b1 \<Longrightarrow> isContinuation b2 \<Longrightarrow>
     isScalarValue ((b0 - 0xE0) * 0x1000 + (b1 - 0x80) * 0x40 + (b2 - 0x80))"
  proof -
    fix b0 b1 b2 :: nat
    assume h: "0xE0 \<le> b0" "b0 \<le> 0xEF" "second_byte_ok b0 b1" "isContinuation b2"
    define x where "x = b0 - 0xE0"
    define y where "y = b1 - 0x80"
    define z where "z = b2 - 0x80"
    from h have "x \<le> 15" "y < 64" "z < 64" "x = 13 \<Longrightarrow> y \<le> 0x1F"
      by (auto simp: x_def y_def z_def second_byte_ok_def isContinuation_def split: if_splits)
    then have "x * 0x1000 + y * 0x40 + z < 0x110000 \<and>
       \<not> (0xD800 \<le> x * 0x1000 + y * 0x40 + z \<and> x * 0x1000 + y * 0x40 + z \<le> 0xDFFF)"
      by (cases "x = 13") auto
    then show "isScalarValue ((b0 - 0xE0) * 0x1000 + (b1 - 0x80) * 0x40 + (b2 - 0x80))"
      by (simp add: isScalarValue_def x_def y_def z_def)
  qed
  have b: "\<And>b0 b1 b2 b3. 0xF0 \<le> b0 \<Longrightarrow> b0 \<le> 0xF4 \<Longrightarrow> second_byte_ok b0 b1 \<Longrightarrow>
     isContinuation b2 \<Longrightarrow> isContinuation b3 \<Longrightarrow>
     isScalarValue ((b0 - 0xF0) * 0x40000 + (b1 - 0x80) * 0x1000 + (b2 - 0x80) * 0x40 + (b3 - 0x80))"
  proof -
    fix b0 b1 b2 b3 :: nat
    assume h: "0xF0 \<le> b0" "b0 \<le> 0xF4" "second_byte_ok b0 b1" "isContinuation b2"
      "isContinuation b3"
    define x where "x = b0 - 0xF0"
    define y where "y = b1 - 0x80"
    define z where "z = b2 - 0x80"
    define w where "w = b3 - 0x80"
    from h have "x \<le> 4" "y < 64" "z < 64" "w < 64" "x = 4 \<Longrightarrow> y \<le> 0xF" "x = 0 \<Longrightarrow> 0x10 \<le> y"
      by (auto simp: x_def y_def z_def w_def second_byte_ok_def isContinuation_def split: if_splits)
    then have "x * 0x40000 + y * 0x1000 + z * 0x40 + w < 0x110000 \<and>
       0xE000 \<le> x * 0x40000 + y * 0x1000 + z * 0x40 + w"
      by (cases "x = 4"; cases "x = 0") auto
    then show "isScalarValue ((b0 - 0xF0) * 0x40000 + (b1 - 0x80) * 0x1000 + (b2 - 0x80) * 0x40 + (b3 - 0x80))"
      by (simp add: isScalarValue_def x_def y_def z_def w_def)
  qed
  have c: "\<And>b0 b1. 0xC2 \<le> b0 \<Longrightarrow> b0 \<le> 0xDF \<Longrightarrow> isContinuation b1 \<Longrightarrow>
     isScalarValue ((b0 - 0xC0) * 0x40 + (b1 - 0x80))"
    by (auto simp: isScalarValue_def isContinuation_def)
  have d: "\<And>b0. b0 < 0x80 \<Longrightarrow> isScalarValue b0"
    by (simp add: isScalarValue_def)
  show ?thesis
  proof (cases bs)
    case Nil
    then show ?thesis by (simp add: utf8_decode_one_def isScalarValue_FFFD)
  next
    case (Cons b0 r0)
    consider "b0 < 0x80" | "0x80 \<le> b0" "b0 < 0xC2" | "0xC2 \<le> b0" "b0 < 0xE0"
      | "0xE0 \<le> b0" "b0 < 0xF0" | "0xF0 \<le> b0" "b0 < 0xF5" | "0xF5 \<le> b0"
      by linarith
    then show ?thesis
    proof cases
      case 1
      with Cons show ?thesis by (simp add: utf8_decode_one_def d)
    next
      case 2
      with Cons show ?thesis by (simp add: utf8_decode_one_def isScalarValue_FFFD)
    next
      case 3
      with Cons show ?thesis
        by (cases r0) (simp_all add: utf8_decode_one_def c isScalarValue_FFFD)
    next
      case 4
      show ?thesis
      proof (cases r0)
        case Nil
        with Cons 4 show ?thesis by (simp add: utf8_decode_one_def isScalarValue_FFFD)
      next
        case r: (Cons b1 r1)
        show ?thesis
        proof (cases r1)
          case Nil
          with r Cons 4 show ?thesis by (simp add: utf8_decode_one_def isScalarValue_FFFD)
        next
          case (Cons b2 r2)
          with r \<open>bs = b0 # r0\<close> 4 show ?thesis
            using a[of b0 b1 b2] by (simp add: utf8_decode_one_def isScalarValue_FFFD)
        qed
      qed
    next
      case 5
      show ?thesis
      proof (cases r0)
        case Nil
        with Cons 5 show ?thesis by (simp add: utf8_decode_one_def isScalarValue_FFFD)
      next
        case r: (Cons b1 r1)
        show ?thesis
        proof (cases r1)
          case Nil
          with r Cons 5 show ?thesis by (simp add: utf8_decode_one_def isScalarValue_FFFD)
        next
          case s: (Cons b2 r2)
          show ?thesis
          proof (cases r2)
            case Nil
            with s r Cons 5 show ?thesis by (simp add: utf8_decode_one_def isScalarValue_FFFD)
          next
            case (Cons b3 r3)
            with s r \<open>bs = b0 # r0\<close> 5 show ?thesis
              using b[of b0 b1 b2 b3] by (simp add: utf8_decode_one_def isScalarValue_FFFD)
          qed
        qed
      qed
    next
      case 6
      with Cons show ?thesis by (simp add: utf8_decode_one_def isScalarValue_FFFD)
    qed
  qed
qed

lemma to_scalar_values_utf16_encode:
  assumes "isScalarValue cp"
  shows "to_scalar_values (utf16_encode cp @ rest) = cp # to_scalar_values rest"
proof (cases "cp < 0x10000")
  case True
  then have u: "unat (of_nat cp :: jschar) = cp" by (rule unat_of_nat_jschar)
  from assms True have "\<not> isLeadSurrogate (of_nat cp)" "\<not> isTrailSurrogate (of_nat cp)"
    unfolding isLeadSurrogate_unat isTrailSurrogate_unat u isScalarValue_def by linarith+
  with True u show ?thesis by (simp add: utf16_encode_def del: of_nat_numeral of_nat_add)
next
  case False
  define m where "m = cp - 0x10000"
  define l where "l = m div 0x400"
  define t where "t = m mod 0x400"
  from assms False have m: "m < 0x100000" "cp = m + 0x10000"
    by (simp_all add: m_def isScalarValue_def)
  have lt: "l < 0x400" "t < 0x400" "m = l * 0x400 + t"
    using m(1) by (simp_all add: l_def t_def)
  have ul: "unat (of_nat (0xD800 + l) :: jschar) = 0xD800 + l"
    using lt by (intro unat_of_nat_jschar) simp
  have ut: "unat (of_nat (0xDC00 + t) :: jschar) = 0xDC00 + t"
    using lt by (intro unat_of_nat_jschar) simp
  have lead: "isLeadSurrogate (of_nat (0xD800 + l))"
    unfolding isLeadSurrogate_unat ul using lt by simp
  have trail: "isTrailSurrogate (of_nat (0xDC00 + t))"
    unfolding isTrailSurrogate_unat ut using lt by simp
  have p: "pair_code_point (of_nat (0xD800 + l)) (of_nat (0xDC00 + t)) = cp"
    unfolding pair_code_point_def ul ut using lt m by simp
  have e: "utf16_encode cp = [of_nat (0xD800 + l), of_nat (0xDC00 + t)]"
    using False by (simp add: utf16_encode_def l_def t_def m_def)
  show ?thesis unfolding e using lead trail p by simp
qed

lemma to_scalar_values_concat:
  "\<forall>cp \<in> set cps. isScalarValue cp \<Longrightarrow>
   to_scalar_values (concat (map utf16_encode cps)) = cps"
  by (induction cps) (simp_all add: to_scalar_values_utf16_encode)

lemma USVString_concat:
  "\<forall>cp \<in> set cps. isScalarValue cp \<Longrightarrow>
   USVString (concat (map utf16_encode cps)) = concat (map utf16_encode cps)"
  by (simp add: USVString_def to_scalar_values_concat)

lemma USVString_idem: "USVString (USVString s) = USVString s"
  unfolding USVString_def[of s]
  by (rule USVString_concat) (simp add: to_scalar_values_scalar)

lemma utf8_decode_scalars:
  "\<exists>cps. (\<forall>cp \<in> set cps. isScalarValue cp) \<and> utf8_decode bs = concat (map utf16_encode cps)"
proof (induction bs rule: utf8_decode.induct)
  case (1 bs)
  show ?case
  proof (cases "bs = []")
    case True
    then have "utf8_decode bs = concat (map utf16_encode [])" by (simp add: utf8_decode_Nil)
    then show ?thesis by (metis empty_iff list.set(1))
  next
    case False
    from 1[OF False] obtain cps where c: "\<forall>cp \<in> set cps. isScalarValue cp"
      "utf8_decode (drop (snd (utf8_decode_one bs)) bs) = concat (map utf16_encode cps)"
      by blast
    have "utf8_decode bs = concat (map utf16_encode (fst (utf8_decode_one bs) # cps))"
      using False c(2) by (subst utf8_decode.simps) simp
    moreover have "\<forall>cp \<in> set (fst (utf8_decode_one bs) # cps). isScalarValue cp"
      using c(1) utf8_decode_one_scalar by simp
    ultimately show ?thesis by blast
  qed
qed

lemma USVString_utf8_decode: "USVString (utf8_decode bs) = utf8_decode bs"
  using utf8_decode_scalars[of bs] USVString_concat by auto

lemma to_scalar_values_ascii: "isASCII s \<Longrightarrow> to_scalar_values s = map unat s"
proof (induction s)
  case Nil
  then show ?case by simp
next
  case (Cons c s)
  then have c: "c < 0x80" and s: "isASCII s" by (simp_all add: isASCII_def)
  from c have "unat c < 0x80" by (simp add: word_less_nat_alt)
  then have "\<not> isLeadSurrogate c" "\<not> isTrailSurrogate c"
    by (simp_all add: isLeadSurrogate_unat isTrailSurrogate_unat)
  with Cons.IH[OF s] show ?case by simp
qed

lemma utf8_bytes_ascii: "isASCII s \<Longrightarrow> utf8_bytes s = map unat s"
proof -
  assume a: "isASCII s"
  have "concat (map utf8_encode (map unat s)) = map unat s"
    using a
  proof (induction s)
    case Nil
    then show ?case by simp
  next
    case (Cons c s)
    then have "unat c < 0x80" by (simp add: isASCII_def word_less_nat_alt)
    with Cons show ?case by (simp add: utf8_encode_1 isASCII_def)
  qed
  with a show ?thesis by (simp add: utf8_bytes_def to_scalar_values_ascii)
qed

lemma USVString_ascii: "isASCII s \<Longrightarrow> USVString s = s"
proof -
  assume a: "isASCII s"
  have "concat (map utf16_encode (map unat s)) = s"
    by (induction s) (simp_all add: utf16_encode_unit)
  with a show ?thesis by (simp add: USVString_def to_scalar_values_ascii)
qed

lemma code_units_simps:
  "code_units [] = []" "code_units (c # s) = unat c # code_units s"
  "code_units (a @ b) = code_units a @ code_units b"
  by (simp_all add: code_units_def)

lemma code_units_concat: "code_units (concat ss) = concat (map code_units ss)"
  by (induction ss) (simp_all add: code_units_simps)

lemma code_units_join_with:
  "code_units (join_with sep ps) = join_with (unat sep) (map code_units ps)"
  by (induction sep ps rule: join_with.induct) (simp_all add: code_units_simps code_units_concat)

lemma unat_hex_upper: "n < 16 \<Longrightarrow> unat (hex_upper n) = hex_upper_code n"
proof (cases "n < 10")
  case True
  then show ?thesis
    unfolding hex_upper_def hex_upper_code_def using unat_of_nat_jschar[of "0x30 + n"] by simp
next
  case False
  assume "n < 16"
  with False show ?thesis
    unfolding hex_upper_def hex_upper_code_def using unat_of_nat_jschar[of "0x41 + (n - 10)"]
    by simp
qed

lemma hex_value_code: "n < 16 \<Longrightarrow> hex_value (hex_upper_code n) = Some n"
  by (auto simp: hex_value_def hex_upper_code_def)

lemma unat_percent: "unat (ch CHR ''%'') = 0x25"
  by (simp add: ch_def)

lemma map_unat_urlencoded_byte:
  assumes "b < 256"
  shows "code_units (urlencoded_byte b) =
     (if b = 0x20 then [0x2B] else if urlencoded_safe b then [b]
      else [0x25, hex_upper_code (b div 16), hex_upper_code (b mod 16)])"
proof -
  have 1: "b div 16 < 16" using assms by simp
  have 2: "b mod 16 < 16" by simp
  have 3: "unat (of_nat b :: jschar) = b" using assms by (intro unat_of_nat_jschar) simp
  have 4: "unat (ch CHR ''+'') = 0x2B" by (simp add: ch_def)
  show ?thesis
    by (simp add: urlencoded_byte_def percent_byte_def unat_hex_upper[OF 1] unat_hex_upper[OF 2]
        3 4 unat_percent code_units_simps code_units_concat)
qed

lemma hex_upper_code_safe: "n < 16 \<Longrightarrow> urlencoded_safe (hex_upper_code n) \<and> hex_upper_code n \<noteq> 0x2B"
  by (auto simp: urlencoded_safe_def hex_upper_code_def)

lemma urlencoded_byte_output:
  assumes "b < 256" "k \<in> set (code_units (urlencoded_byte b))"
  shows "urlencoded_output_code k"
proof -
  have 1: "b div 16 < 16" using assms by simp
  have 2: "b mod 16 < 16" by simp
  from assms(2) show ?thesis
    unfolding map_unat_urlencoded_byte[OF assms(1)] urlencoded_output_code_def
    using hex_upper_code_safe[OF 1] hex_upper_code_safe[OF 2]
    by (auto split: if_splits)
qed

lemma form_decode_byte:
  assumes "b < 256"
  shows "percent_decode (plus_to_space (code_units (urlencoded_byte b) @ r)) =
         b # percent_decode (plus_to_space r)"
proof -
  have 1: "b div 16 < 16" using assms by simp
  have 2: "b mod 16 < 16" by simp
  consider "b = 0x20" | "b \<noteq> 0x20" "urlencoded_safe b" | "b \<noteq> 0x20" "\<not> urlencoded_safe b"
    by blast
  then show ?thesis
  proof cases
    case 1
    then show ?thesis
      unfolding map_unat_urlencoded_byte[OF assms] by (simp add: plus_to_space_def)
  next
    case 2
    then have "b \<noteq> 0x2B" "b \<noteq> 0x25" by (auto simp: urlencoded_safe_def)
    with 2 show ?thesis
      unfolding map_unat_urlencoded_byte[OF assms] by (simp add: plus_to_space_def)
  next
    case 3
    then show ?thesis
      unfolding map_unat_urlencoded_byte[OF assms]
      using hex_upper_code_safe[OF \<open>b div 16 < 16\<close>] hex_upper_code_safe[OF \<open>b mod 16 < 16\<close>]
      by (simp add: plus_to_space_def
          hex_value_code[OF \<open>b div 16 < 16\<close>] hex_value_code[OF \<open>b mod 16 < 16\<close>])
  qed
qed

lemma form_decode_bytes:
  "\<forall>b \<in> set bs. b < 256 \<Longrightarrow>
   percent_decode (plus_to_space (code_units (concat (map urlencoded_byte bs)) @ r)) =
   bs @ percent_decode (plus_to_space r)"
  by (induction bs) (simp_all add: form_decode_byte code_units_simps code_units_concat)

lemma utf8_bytes_lt: "b \<in> set (utf8_bytes s) \<Longrightarrow> b < 256"
  unfolding utf8_bytes_def
  using utf8_encode_bytes to_scalar_values_scalar by (auto simp: isScalarValue_def)

lemma form_decode_string:
  "percent_decode (plus_to_space (code_units (urlencoded_string s))) = utf8_bytes s"
  using form_decode_bytes[of "utf8_bytes s" "[]"] utf8_bytes_lt
  by (simp add: urlencoded_string_def plus_to_space_def)

lemma urlencoded_string_output:
  "k \<in> set (code_units (urlencoded_string s)) \<Longrightarrow> urlencoded_output_code k"
  unfolding urlencoded_string_def
  using urlencoded_byte_output utf8_bytes_lt by (auto simp: code_units_simps code_units_concat)

lemma parse_decode_string:
  "utf8_decode (percent_decode (plus_to_space (code_units (urlencoded_string s)))) = USVString s"
  by (simp add: form_decode_string utf8_decode_utf8_bytes)

lemma output_code_not_sep:
  "urlencoded_output_code k \<Longrightarrow> k \<noteq> 0x26 \<and> k \<noteq> 0x3D \<and> k \<noteq> 0x3F \<and> k < 0x80"
  by (auto simp: urlencoded_output_code_def urlencoded_safe_def)

lemma unat_eq: "unat (ch CHR ''='') = 0x3D"
  by (simp add: ch_def)

lemma unat_amp: "unat (ch CHR ''&'') = 0x26"
  by (simp add: ch_def)

lemma urlencoded_parse_pair_piece:
  "urlencoded_parse_pair (code_units (urlencoded_pair p)) = (USVString (fst p), USVString (snd p))"
proof -
  have n: "\<forall>k \<in> set (code_units (urlencoded_string (fst p))). k \<noteq> 0x3D"
    using urlencoded_string_output output_code_not_sep by blast
  have t: "takeWhile (\<lambda>b. b \<noteq> 0x3D) (code_units (urlencoded_pair p)) = code_units (urlencoded_string (fst p))"
    unfolding urlencoded_pair_def using n by (simp add: code_units_simps code_units_concat unat_eq)
  have d: "dropWhile (\<lambda>b. b \<noteq> 0x3D) (code_units (urlencoded_pair p))
             = 0x3D # code_units (urlencoded_string (snd p))"
    unfolding urlencoded_pair_def using n by (simp add: code_units_simps code_units_concat unat_eq)
  show ?thesis
    by (simp add: urlencoded_parse_pair_def t d parse_decode_string)
qed

lemma piece_no_amp: "0x26 \<notin> set (code_units (urlencoded_pair p))"
  unfolding urlencoded_pair_def
  using urlencoded_string_output output_code_not_sep by (auto simp: unat_eq code_units_simps code_units_concat)

lemma piece_not_Nil: "code_units (urlencoded_pair p) \<noteq> []"
  by (simp add: urlencoded_pair_def code_units_simps code_units_concat)

lemma split_on_no_sep: "sep \<notin> set p \<Longrightarrow> split_on sep p = [p]"
  by (induction p) auto

lemma split_on_join:
  "pieces \<noteq> [] \<Longrightarrow> \<forall>p \<in> set pieces. sep \<notin> set p \<Longrightarrow>
   split_on sep (join_with sep pieces) = pieces"
proof (induction sep pieces rule: join_with.induct)
  case (1 sep)
  then show ?case by simp
next
  case (2 sep x)
  then show ?case by (simp add: split_on_no_sep)
next
  case (3 sep x y r)
  then show ?case by (simp add: split_on_append split_on_no_sep)
qed

lemma usp_toString_ascii: "isASCII (usp_toString ps)"
proof -
  have a: "\<And>p. isASCII (urlencoded_pair p)"
  proof -
    fix p
    have "\<forall>k \<in> set (code_units (urlencoded_pair p)). k < 0x80"
      unfolding urlencoded_pair_def
      using urlencoded_string_output output_code_not_sep by (auto simp: unat_eq code_units_simps code_units_concat)
    then show "isASCII (urlencoded_pair p)" by (simp add: isASCII_def word_less_nat_alt code_units_def)
  qed
  have "\<And>pieces. \<forall>p \<in> set pieces. isASCII p \<Longrightarrow> isASCII (join_with (ch CHR ''&'') pieces)"
  proof -
    fix pieces :: "jsstring list"
    show "\<forall>p \<in> set pieces. isASCII p \<Longrightarrow> isASCII (join_with (ch CHR ''&'') pieces)"
      by (induction "ch CHR ''&''" pieces rule: join_with.induct)
         (auto simp: isASCII_def ch_def)
  qed
  then show ?thesis unfolding usp_toString_def using a by simp
qed

lemma urlencoded_parse_toString:
  "urlencoded_parse (code_units (usp_toString ps)) =
     map (\<lambda>p. (USVString (fst p), USVString (snd p))) ps"
proof (cases "ps = []")
  case True
  then show ?thesis by (simp add: usp_toString_def urlencoded_parse_def code_units_simps)
next
  case False
  have s: "split_on 0x26 (code_units (usp_toString ps)) = map (\<lambda>p. code_units (urlencoded_pair p)) ps"
    unfolding usp_toString_def code_units_join_with unat_amp
    using False piece_no_amp by (subst split_on_join) (simp_all add: comp_def)
  show ?thesis
    unfolding urlencoded_parse_def s
    by (simp add: filter_map comp_def piece_not_Nil urlencoded_parse_pair_piece)
qed

theorem URLSearchParams_toString:
  "URLSearchParams (ch CHR ''?'' # usp_toString ps) =
     map (\<lambda>p. (USVString (fst p), USVString (snd p))) ps"
  by (simp add: URLSearchParams_def utf8_bytes_ascii[OF usp_toString_ascii]
      urlencoded_parse_toString code_units_def[symmetric])

lemma URLSearchParams_empty: "URLSearchParams [] = []"
  by (simp add: URLSearchParams_def utf8_bytes_def urlencoded_parse_def)

lemma hex_value_lower: "n < 16 \<Longrightarrow> hex_value (unat (hex_lower n)) = Some n"
proof (cases "n < 10")
  case True
  have "unat (hex_lower n) = 0x30 + n"
    unfolding hex_lower_def using True unat_of_nat_jschar[of "0x30 + n"] by simp
  with True show ?thesis by (simp add: hex_value_def)
next
  case False
  assume "n < 16"
  have "unat (hex_lower n) = 0x61 + (n - 10)"
    unfolding hex_lower_def using False \<open>n < 16\<close> unat_of_nat_jschar[of "0x61 + (n - 10)"] by simp
  with False \<open>n < 16\<close> show ?thesis by (simp add: hex_value_def)
qed

lemma hex4_digits:
  fixes n :: nat
  assumes "n < 0x10000"
  shows "((n div 0x1000 * 16 + n div 0x100 mod 0x10) * 16 + n div 0x10 mod 0x10) * 16 + n mod 0x10 = n"
    and "n div 0x1000 < 16"
proof -
  define q1 where "q1 = n div 0x10"
  define q2 where "q2 = q1 div 0x10"
  define q3 where "q3 = q2 div 0x10"
  define d0 where "d0 = n mod 0x10"
  define d1 where "d1 = q1 mod 0x10"
  define d2 where "d2 = q2 mod 0x10"
  have a: "n div 0x100 = q2" by (simp add: q2_def q1_def div_mult2_eq[symmetric])
  have b: "n div 0x1000 = q3" by (simp add: q3_def q2_def q1_def div_mult2_eq[symmetric])
  have e: "n = q1 * 0x10 + d0" "q1 = q2 * 0x10 + d1" "q2 = q3 * 0x10 + d2"
    by (simp_all add: q1_def q2_def q3_def d0_def d1_def d2_def)
  have "((q3 * 16 + d2) * 16 + d1) * 16 + d0 = n"
    by (subst e(1), subst e(2), subst e(3)) simp
  then show "((n div 0x1000 * 16 + n div 0x100 mod 0x10) * 16 + n div 0x10 mod 0x10) * 16 + n mod 0x10 = n"
    unfolding a b q1_def[symmetric] d0_def[symmetric] d1_def[symmetric] d2_def[symmetric] .
  from e assms show "n div 0x1000 < 16" unfolding b by linarith
qed

lemma hex4_unicode_escape:
  "hex4 (hex_lower (unat c div 0x1000)) (hex_lower (unat c div 0x100 mod 0x10))
        (hex_lower (unat c div 0x10 mod 0x10)) (hex_lower (unat c mod 0x10)) = Some c"
proof -
  have n: "unat c < 0x10000" using unat_jschar_lt[of c] by simp
  note d = hex4_digits[OF n]
  have v: "hex_value (unat (hex_lower (unat c div 0x1000))) = Some (unat c div 0x1000)"
    "hex_value (unat (hex_lower (unat c div 0x100 mod 0x10))) = Some (unat c div 0x100 mod 0x10)"
    "hex_value (unat (hex_lower (unat c div 0x10 mod 0x10))) = Some (unat c div 0x10 mod 0x10)"
    "hex_value (unat (hex_lower (unat c mod 0x10))) = Some (unat c mod 0x10)"
    using d(2) by (simp_all add: hex_value_lower)
  show ?thesis unfolding hex4_def v using d(1) by simp
qed

lemma lex_string_unicode: "lex_string (unicode_escape c @ X) = prepend c (lex_string X)"
  by (simp add: unicode_escape_def hex4_unicode_escape ch_def)

lemma lex_string_simple:
  "simple_escape e = Some v \<Longrightarrow> e \<noteq> ch CHR ''u'' \<Longrightarrow>
   lex_string (0x5C # e # X) = prepend v (lex_string X)"
  by simp

lemma lex_string_plain:
  "c \<noteq> 0x22 \<Longrightarrow> c \<noteq> 0x5C \<Longrightarrow> \<not> c < 0x20 \<Longrightarrow> lex_string (c # X) = prepend c (lex_string X)"
  by simp

lemma lex_string_close: "lex_string (0x22 # rest) = Some ([], rest)"
  by simp

lemma surrogate_plain:
  "isLeadSurrogate c \<or> isTrailSurrogate c \<Longrightarrow> c \<noteq> 0x22 \<and> c \<noteq> 0x5C \<and> \<not> c < 0x20"
  by (auto simp: isLeadSurrogate_unat isTrailSurrogate_unat word_less_nat_alt)

lemma lex_string_quote_body: "lex_string (quote_body s @ 0x22 # rest) = Some (s, rest)"
proof (induction s rule: quote_body.induct)
  case 1
  show ?case by simp
next
  case (2 c cs)
  consider (bs) "c = 0x08" | (ht) "c = 0x09" | (lf) "c = 0x0A" | (ff) "c = 0x0C" | (cr) "c = 0x0D"
    | (dq) "c = 0x22" | (rs) "c = 0x5C"
    | (ctl) "c \<noteq> 0x08" "c \<noteq> 0x09" "c \<noteq> 0x0A" "c \<noteq> 0x0C" "c \<noteq> 0x0D" "c \<noteq> 0x22" "c \<noteq> 0x5C"
        "c < 0x20"
    | (other) "c \<noteq> 0x08" "c \<noteq> 0x09" "c \<noteq> 0x0A" "c \<noteq> 0x0C" "c \<noteq> 0x0D" "c \<noteq> 0x22" "c \<noteq> 0x5C"
        "\<not> c < 0x20"
    by blast
  then show ?case
  proof cases
    case bs
    with "2.IH"(1) show ?thesis by (simp add: simple_escape_def prepend_def ch_def)
  next
    case ht
    with "2.IH"(2) show ?thesis by (simp add: simple_escape_def prepend_def ch_def)
  next
    case lf
    with "2.IH"(3) show ?thesis by (simp add: simple_escape_def prepend_def ch_def)
  next
    case ff
    with "2.IH"(4) show ?thesis by (simp add: simple_escape_def prepend_def ch_def)
  next
    case cr
    with "2.IH"(5) show ?thesis by (simp add: simple_escape_def prepend_def ch_def)
  next
    case dq
    with "2.IH"(6) show ?thesis by (simp add: simple_escape_def prepend_def ch_def)
  next
    case rs
    with "2.IH"(7) show ?thesis by (simp add: simple_escape_def prepend_def ch_def)
  next
    case ctl
    from "2.IH"(8)[OF ctl] have "lex_string (quote_body cs @ 0x22 # rest) = Some (cs, rest)" .
    then have "lex_string (unicode_escape c @ quote_body cs @ 0x22 # rest) = Some (c # cs, rest)"
      by (simp add: lex_string_unicode prepend_def del: lex_string.simps)
    with ctl show ?thesis by (simp del: lex_string.simps)
  next
    case other
    note o = other(1-7)
    show ?thesis
    proof (cases "isLeadSurrogate c")
      case True
      note sp = surrogate_plain[of c]
      show ?thesis
      proof (cases cs)
        case Nil
        have "lex_string (unicode_escape c @ 0x22 # rest) = Some ([c], rest)"
          by (simp add: lex_string_unicode lex_string_close prepend_def del: lex_string.simps)
        with other True Nil show ?thesis by (simp del: lex_string.simps)
      next
        case (Cons d ds)
        show ?thesis
        proof (cases "isTrailSurrogate d")
          case t: True
          from "2.IH"(9)[OF o other(8) True Cons t]
          have ih: "lex_string (quote_body ds @ 0x22 # rest) = Some (ds, rest)" .
          from surrogate_plain[of d] t have pd: "d \<noteq> 0x22" "d \<noteq> 0x5C" "\<not> d < 0x20" by simp_all
          have "lex_string (c # d # quote_body ds @ 0x22 # rest) = Some (c # d # ds, rest)"
            using other(6,7,8) pd ih
            by (simp add: lex_string_plain prepend_def del: lex_string.simps)
          with other True Cons t show ?thesis by (simp del: lex_string.simps)
        next
          case f: False
          from "2.IH"(10)[OF o other(8) True Cons f]
          have ih: "lex_string (quote_body cs @ 0x22 # rest) = Some (cs, rest)" .
          then have "lex_string (unicode_escape c @ quote_body cs @ 0x22 # rest) = Some (c # cs, rest)"
            by (simp add: lex_string_unicode prepend_def del: lex_string.simps)
          with other True Cons f show ?thesis by (simp del: lex_string.simps)
        qed
      qed
    next
      case l: False
      show ?thesis
      proof (cases "isTrailSurrogate c")
        case True
        from "2.IH"(11)[OF o other(8) l True]
        have ih: "lex_string (quote_body cs @ 0x22 # rest) = Some (cs, rest)" .
        then have "lex_string (unicode_escape c @ quote_body cs @ 0x22 # rest) = Some (c # cs, rest)"
          by (simp add: lex_string_unicode prepend_def del: lex_string.simps)
        with other l True show ?thesis by (simp del: lex_string.simps)
      next
        case False
        from "2.IH"(12)[OF o other(8) l False]
        have ih: "lex_string (quote_body cs @ 0x22 # rest) = Some (cs, rest)" .
        then have "lex_string (c # quote_body cs @ 0x22 # rest) = Some (c # cs, rest)"
          using other(6,7,8) by (simp add: lex_string_plain prepend_def del: lex_string.simps)
        with other l False show ?thesis by (simp del: lex_string.simps)
      qed
    qed
  qed
qed

lemma prepend_tokens_simps:
  "prepend_tokens [] r = r"
  "cons_token t (prepend_tokens ts r) = prepend_tokens (t # ts) r"
  "prepend_tokens ts (prepend_tokens us r) = prepend_tokens (ts @ us) r"
  "cons_token t r = prepend_tokens [t] r"
  "prepend_tokens ts (Some us) = Some (ts @ us)"
  by (simp_all add: prepend_tokens_def cons_token_def split: option.split)

lemma lex_quote: "json_lex (QuoteJSONString s @ rest) = prepend_tokens [TString s] (json_lex rest)"
  by (simp add: QuoteJSONString_def lex_string_quote_body isJSONWhiteSpace_def ch_def
      prepend_tokens_def cons_token_def split: option.split)

lemma lex_punct:
  "json_lex (ch CHR ''{'' # rest) = prepend_tokens [TLBrace] (json_lex rest)"
  "json_lex (ch CHR ''}'' # rest) = prepend_tokens [TRBrace] (json_lex rest)"
  "json_lex (ch CHR ''['' # rest) = prepend_tokens [TLBracket] (json_lex rest)"
  "json_lex (ch CHR '']'' # rest) = prepend_tokens [TRBracket] (json_lex rest)"
  "json_lex (ch CHR '':'' # rest) = prepend_tokens [TColon] (json_lex rest)"
  "json_lex (ch CHR '','' # rest) = prepend_tokens [TComma] (json_lex rest)"
  by (simp_all add: isJSONWhiteSpace_def ch_def prepend_tokens_def cons_token_def
      split: option.split)

lemma lex_join:
  assumes "\<And>p rest. json_lex (f p @ rest) = prepend_tokens (g p) (json_lex rest)"
  shows "json_lex (join_with (ch CHR '','') (map f ps) @ rest) =
         prepend_tokens (join_with TComma (map g ps)) (json_lex rest)"
proof (induction ps rule: induct_list012)
  case 1
  show ?case by (simp add: prepend_tokens_simps(1))
next
  case (2 x)
  show ?case by (simp add: assms)
next
  case (3 x y zs)
  have "json_lex (join_with (ch CHR '','') (map f (x # y # zs)) @ rest)
      = json_lex (f x @ ch CHR '','' # (join_with (ch CHR '','') (map f (y # zs)) @ rest))"
    by simp
  also have "\<dots> = prepend_tokens (g x) (prepend_tokens [TComma]
       (prepend_tokens (join_with TComma (map g (y # zs))) (json_lex rest)))"
    unfolding assms lex_punct "3.IH"(2) ..
  finally show ?case by (simp add: prepend_tokens_simps(3))
qed

lemma lex_property:
  "json_lex (stringify_property p @ rest) = prepend_tokens (property_tokens p) (json_lex rest)"
  by (simp add: stringify_property_def property_tokens_def lex_quote lex_punct
      prepend_tokens_simps(3) del: json_lex.simps)

lemma lex_object:
  "json_lex (stringify_object obj @ rest) = prepend_tokens (object_tokens obj) (json_lex rest)"
proof -
  have "json_lex (stringify_object obj @ rest)
     = json_lex (ch CHR ''{'' # (join_with (ch CHR '','') (map stringify_property obj) @
           ch CHR ''}'' # rest))"
    by (simp add: stringify_object_def)
  also have "\<dots> = prepend_tokens [TLBrace] (prepend_tokens
       (join_with TComma (map property_tokens obj)) (prepend_tokens [TRBrace] (json_lex rest)))"
    unfolding lex_punct lex_join[of stringify_property property_tokens, OF lex_property] ..
  finally show ?thesis by (simp add: prepend_tokens_simps(3) object_tokens_def)
qed

lemma lex_JSON_stringify: "json_lex (JSON_stringify arr) = Some (array_tokens arr)"
proof -
  have "json_lex (JSON_stringify arr)
     = json_lex (ch CHR ''['' # (join_with (ch CHR '','') (map stringify_object arr) @
           ch CHR '']'' # []))"
    by (simp add: JSON_stringify_def)
  also have "\<dots> = prepend_tokens [TLBracket] (prepend_tokens
       (join_with TComma (map object_tokens arr)) (prepend_tokens [TRBracket] (json_lex [])))"
    unfolding lex_punct lex_join[of stringify_object object_tokens, OF lex_object] ..
  finally show ?thesis by (simp add: prepend_tokens_simps array_tokens_def)
qed

lemma run_append:
  "run c (a @ b) = (case run c a of None \<Rightarrow> None | Some c' \<Rightarrow> run c' b)"
  by (induction a arbitrary: c) (auto split: option.split)

lemma set_prop_fresh: "k \<notin> fst ` set ps \<Longrightarrow> set_prop k v ps = ps @ [(k, v)]"
  by (induction ps) auto

lemma run_property:
  assumes "e = ExpectKey \<or> e = ExpectKeyOrClose" "fst p \<notin> fst ` set acc"
  shows "run (ObjectFrame acc None # st, e) (property_tokens p) =
         Some (ObjectFrame (acc @ [(fst p, JString (snd p))]) None # st, ExpectCommaOrClose)"
  using assms by (auto simp: property_tokens_def set_prop_fresh)

lemma run_properties:
  assumes "e = ExpectKey \<or> e = ExpectKeyOrClose"
  shows "ps \<noteq> [] \<Longrightarrow> distinct (map fst acc @ map fst ps) \<Longrightarrow>
         run (ObjectFrame acc None # st, e) (join_with TComma (map property_tokens ps)) =
         Some (ObjectFrame (acc @ map (\<lambda>p. (fst p, JString (snd p))) ps) None # st,
               ExpectCommaOrClose)"
  using assms
proof (induction ps arbitrary: acc e rule: induct_list012)
  case 1
  then show ?case by simp
next
  case (2 x)
  then have "fst x \<notin> fst ` set acc" by auto
  from run_property[OF "2.prems"(3) this] show ?case by simp
next
  case (3 x y zs)
  from "3.prems"(2) have f: "fst x \<notin> fst ` set acc" by auto
  from "3.prems"(2) have d: "distinct (map fst (acc @ [(fst x, JString (snd x))]) @ map fst (y # zs))"
    by auto
  have r1: "run (ObjectFrame acc None # st, e) (property_tokens x) =
         Some (ObjectFrame (acc @ [(fst x, JString (snd x))]) None # st, ExpectCommaOrClose)"
    by (rule run_property[OF "3.prems"(3) f])
  have r2: "run (ObjectFrame (acc @ [(fst x, JString (snd x))]) None # st, ExpectKey)
          (join_with TComma (map property_tokens (y # zs))) =
         Some (ObjectFrame ((acc @ [(fst x, JString (snd x))]) @
                 map (\<lambda>p. (fst p, JString (snd p))) (y # zs)) None # st, ExpectCommaOrClose)"
    by (rule "3.IH"(2)[OF _ d]) simp_all
  have "run (ObjectFrame acc None # st, e) (join_with TComma (map property_tokens (x # y # zs)))
      = run (ObjectFrame acc None # st, e)
          (property_tokens x @ TComma # join_with TComma (map property_tokens (y # zs)))"
    by simp
  also have "\<dots> = Some (ObjectFrame ((acc @ [(fst x, JString (snd x))]) @
                 map (\<lambda>p. (fst p, JString (snd p))) (y # zs)) None # st, ExpectCommaOrClose)"
    unfolding run_append r1 using r2 by simp
  finally show ?case by simp
qed

lemma run_object:
  assumes "e = ExpectValue \<or> e = ExpectValueOrClose" "distinct (map fst obj)"
  shows "run (st, e) (object_tokens obj @ rest) =
         (case deliver (json_of_object obj) st of None \<Rightarrow> None | Some c \<Rightarrow> run c rest)"
proof (cases "obj = []")
  case True
  with assms(1) show ?thesis
    by (auto simp: object_tokens_def json_of_object_def)
next
  case False
  have o: "step (st, e) TLBrace = Some (ObjectFrame [] None # st, ExpectKeyOrClose)"
    using assms(1) by auto
  have p: "run (ObjectFrame [] None # st, ExpectKeyOrClose)
            (join_with TComma (map property_tokens obj)) =
           Some (ObjectFrame ([] @ map (\<lambda>p. (fst p, JString (snd p))) obj) None # st,
                 ExpectCommaOrClose)"
    by (rule run_properties[OF _ False]) (simp_all add: assms(2))
  have "run (st, e) (object_tokens obj @ rest)
      = run (st, e) (TLBrace # (join_with TComma (map property_tokens obj) @ TRBrace # rest))"
    by (simp add: object_tokens_def)
  also have "\<dots> = (case deliver (json_of_object obj) st of None \<Rightarrow> None | Some c \<Rightarrow> run c rest)"
    unfolding run.simps(2) o option.case run_append p
    by (simp add: json_of_object_def)
  finally show ?thesis .
qed

lemma run_elements:
  assumes "e = ExpectValue \<or> e = ExpectValueOrClose"
  shows "arr \<noteq> [] \<Longrightarrow> \<forall>obj \<in> set arr. distinct (map fst obj) \<Longrightarrow>
         run (ArrayFrame acc # st, e) (join_with TComma (map object_tokens arr) @ rest) =
         run (ArrayFrame (acc @ map json_of_object arr) # st, ExpectCommaOrClose) rest"
  using assms
proof (induction arr arbitrary: acc e rule: induct_list012)
  case 1
  then show ?case by simp
next
  case (2 x)
  then show ?case by (simp add: run_object)
next
  case (3 x y zs)
  have d: "\<forall>obj \<in> set (y # zs). distinct (map fst obj)" "distinct (map fst x)"
    using "3.prems"(2) by simp_all
  have "run (ArrayFrame acc # st, e) (join_with TComma (map object_tokens (x # y # zs)) @ rest)
      = run (ArrayFrame acc # st, e)
          (object_tokens x @ TComma # (join_with TComma (map object_tokens (y # zs)) @ rest))"
    by simp
  also have "\<dots> = run (ArrayFrame (acc @ [json_of_object x]) # st, ExpectValue)
          (join_with TComma (map object_tokens (y # zs)) @ rest)"
    unfolding run_object[OF "3.prems"(3) d(2)] by simp
  also have "\<dots> = run (ArrayFrame ((acc @ [json_of_object x]) @ map json_of_object (y # zs)) # st,
          ExpectCommaOrClose) rest"
    by (rule "3.IH"(2)[OF _ d(1)]) simp_all
  finally show ?case by simp
qed

lemma run_array:
  assumes "\<forall>obj \<in> set arr. distinct (map fst obj)"
  shows "run ([], ExpectValue) (array_tokens arr) = Some ([], Done (json_of_array arr))"
proof (cases "arr = []")
  case True
  then show ?thesis by (simp add: array_tokens_def json_of_array_def)
next
  case False
  have "run ([], ExpectValue) (array_tokens arr)
      = run ([ArrayFrame []], ExpectValueOrClose)
          (join_with TComma (map object_tokens arr) @ [TRBracket])"
    by (simp add: array_tokens_def)
  also have "\<dots> = run ([ArrayFrame ([] @ map json_of_object arr)], ExpectCommaOrClose) [TRBracket]"
    by (rule run_elements[OF _ False assms]) simp
  finally show ?thesis by (simp add: json_of_array_def)
qed

theorem JSON_parse_stringify:
  "\<forall>obj \<in> set arr. distinct (map fst obj) \<Longrightarrow>
   JSON_parse (JSON_stringify arr) = Inr (json_of_array arr)"
  by (simp add: JSON_parse_def lex_JSON_stringify run_array)

lemma wellFormed_append: "wellFormed a \<Longrightarrow> wellFormed b \<Longrightarrow> wellFormed (a @ b)"
  by (induction a rule: wellFormed.induct) (auto split: list.splits if_splits)

lemma ascii_not_surrogate:
  "c < 0x80 \<Longrightarrow> \<not> isLeadSurrogate c \<and> \<not> isTrailSurrogate c"
  by (auto simp: isLeadSurrogate_unat isTrailSurrogate_unat word_less_nat_alt)

lemma wellFormed_ascii: "isASCII s \<Longrightarrow> wellFormed s"
  by (induction s) (auto simp: isASCII_def ascii_not_surrogate)

lemma isASCII_append: "isASCII (a @ b) \<longleftrightarrow> isASCII a \<and> isASCII b"
  by (auto simp: isASCII_def)

lemma hex_lower_ascii: "n < 16 \<Longrightarrow> hex_lower n < 0x80"
proof -
  assume "n < 16"
  then have "unat (hex_lower n) < 0x80"
    unfolding hex_lower_def
    using unat_of_nat_jschar[of "0x30 + n"] unat_of_nat_jschar[of "0x61 + (n - 10)"]
    by (auto split: if_splits)
  then show ?thesis by (simp add: word_less_nat_alt)
qed

lemma hex_upper_ascii: "n < 16 \<Longrightarrow> hex_upper n < 0x80"
proof -
  assume "n < 16"
  then have "unat (hex_upper n) < 0x80"
    by (simp add: unat_hex_upper hex_upper_code_def)
  then show ?thesis by (simp add: word_less_nat_alt)
qed

lemma unicode_escape_ascii: "isASCII (unicode_escape c)"
proof -
  have n: "unat c < 0x10000" using unat_jschar_lt[of c] by simp
  have "unat c div 0x1000 < 16" by (rule hex4_digits(2)[OF n])
  then show ?thesis
    by (simp add: isASCII_def unicode_escape_def hex_lower_ascii)
qed

lemma wellFormed_unicode_escape: "wellFormed b \<Longrightarrow> wellFormed (unicode_escape c @ b)"
  using wellFormed_ascii[OF unicode_escape_ascii] by (rule wellFormed_append)

lemma wellFormed_ascii_Cons: "c < 0x80 \<Longrightarrow> wellFormed b \<Longrightarrow> wellFormed (c # b)"
  using ascii_not_surrogate[of c] by simp

lemma wellFormed_ascii_two:
  "a < 0x80 \<Longrightarrow> b < 0x80 \<Longrightarrow> wellFormed r \<Longrightarrow> wellFormed (a # b # r)"
  by (simp add: wellFormed_ascii_Cons del: wellFormed.simps)

lemma wellFormed_quote_body: "wellFormed (quote_body s)"
proof (induction s rule: quote_body.induct)
  case 1
  show ?case by simp
next
  case (2 c cs)
  consider (bs) "c = 0x08" | (ht) "c = 0x09" | (lf) "c = 0x0A" | (ff) "c = 0x0C" | (cr) "c = 0x0D"
    | (dq) "c = 0x22" | (rs) "c = 0x5C"
    | (ctl) "c \<noteq> 0x08" "c \<noteq> 0x09" "c \<noteq> 0x0A" "c \<noteq> 0x0C" "c \<noteq> 0x0D" "c \<noteq> 0x22" "c \<noteq> 0x5C"
        "c < 0x20"
    | (other) "c \<noteq> 0x08" "c \<noteq> 0x09" "c \<noteq> 0x0A" "c \<noteq> 0x0C" "c \<noteq> 0x0D" "c \<noteq> 0x22" "c \<noteq> 0x5C"
        "\<not> c < 0x20"
    by blast
  then show ?case
  proof cases
    case bs
    with "2.IH"(1) show ?thesis
      by (simp add: wellFormed_ascii_two ch_def del: wellFormed.simps)
  next
    case ht
    with "2.IH"(2) show ?thesis
      by (simp add: wellFormed_ascii_two ch_def del: wellFormed.simps)
  next
    case lf
    with "2.IH"(3) show ?thesis
      by (simp add: wellFormed_ascii_two ch_def del: wellFormed.simps)
  next
    case ff
    with "2.IH"(4) show ?thesis
      by (simp add: wellFormed_ascii_two ch_def del: wellFormed.simps)
  next
    case cr
    with "2.IH"(5) show ?thesis
      by (simp add: wellFormed_ascii_two ch_def del: wellFormed.simps)
  next
    case dq
    with "2.IH"(6) show ?thesis
      by (simp add: wellFormed_ascii_two ch_def del: wellFormed.simps)
  next
    case rs
    with "2.IH"(7) show ?thesis
      by (simp add: wellFormed_ascii_two ch_def del: wellFormed.simps)
  next
    case ctl
    from "2.IH"(8)[OF ctl] ctl show ?thesis
      by (simp add: wellFormed_unicode_escape del: wellFormed.simps)
  next
    case other
    note o = other(1-7)
    show ?thesis
    proof (cases "isLeadSurrogate c")
      case True
      show ?thesis
      proof (cases cs)
        case Nil
        with other True show ?thesis
          using wellFormed_unicode_escape[of "[]" c] by (simp del: wellFormed.simps(2))
      next
        case (Cons d ds)
        show ?thesis
        proof (cases "isTrailSurrogate d")
          case t: True
          from "2.IH"(9)[OF o other(8) True Cons t] other True Cons t show ?thesis by simp
        next
          case f: False
          from "2.IH"(10)[OF o other(8) True Cons f] other True Cons f show ?thesis
            by (simp add: wellFormed_unicode_escape del: wellFormed.simps)
        qed
      qed
    next
      case l: False
      show ?thesis
      proof (cases "isTrailSurrogate c")
        case True
        from "2.IH"(11)[OF o other(8) l True] other l True show ?thesis
          by (simp add: wellFormed_unicode_escape del: wellFormed.simps)
      next
        case False
        from "2.IH"(12)[OF o other(8) l False] other l False show ?thesis by simp
      qed
    qed
  qed
qed

lemma wellFormed_QuoteJSONString: "wellFormed (QuoteJSONString s)"
proof -
  have q: "wellFormed [0x22]" by (rule wellFormed_ascii_Cons) simp_all
  have "wellFormed (quote_body s @ [0x22])"
    by (rule wellFormed_append[OF wellFormed_quote_body q])
  then show ?thesis
    unfolding QuoteJSONString_def by (rule wellFormed_ascii_Cons[rotated]) simp
qed

lemma wellFormed_join:
  "sep < 0x80 \<Longrightarrow> \<forall>p \<in> set ps. wellFormed p \<Longrightarrow> wellFormed (join_with sep ps)"
proof (induction sep ps rule: join_with.induct)
  case (1 sep)
  show ?case by simp
next
  case (2 sep x)
  then show ?case by simp
next
  case (3 sep x y r)
  then have "wellFormed (sep # join_with sep (y # r))"
    by (intro wellFormed_ascii_Cons) simp_all
  with 3 show ?case by (simp add: wellFormed_append del: wellFormed.simps)
qed

lemma wellFormed_stringify_property: "wellFormed (stringify_property p)"
  unfolding stringify_property_def
  by (intro wellFormed_append wellFormed_QuoteJSONString wellFormed_ascii_Cons)
     (simp add: ch_def)

lemma wellFormed_stringify_object: "wellFormed (stringify_object obj)"
proof -
  have "wellFormed (join_with (ch CHR '','') (map stringify_property obj) @ [ch CHR ''}''])"
    by (intro wellFormed_append wellFormed_join wellFormed_ascii_Cons)
       (simp_all add: ch_def wellFormed_stringify_property)
  then show ?thesis
    unfolding stringify_object_def by (intro wellFormed_ascii_Cons) (simp_all add: ch_def)
qed

lemma wellFormed_JSON_stringify: "wellFormed (JSON_stringify arr)"
proof -
  have "wellFormed (join_with (ch CHR '','') (map stringify_object arr) @ [ch CHR '']''])"
    by (intro wellFormed_append wellFormed_join wellFormed_ascii_Cons)
       (simp_all add: ch_def wellFormed_stringify_object)
  then show ?thesis
    unfolding JSON_stringify_def by (intro wellFormed_ascii_Cons) (simp_all add: ch_def)
qed

lemma isAlnum_ascii: "isAlnum c \<Longrightarrow> c < 0x80"
  unfolding isAlnum_def word_le_nat_alt word_less_nat_alt by auto

lemma uriUnreserved_ascii: "uriUnreserved c \<Longrightarrow> c < 0x80"
proof -
  assume "uriUnreserved c"
  then consider "isAlnum c" | "c \<in> set (lit ''-_.!~*'' @ [0x27] @ lit ''()'')"
    by (auto simp: uriUnreserved_def)
  then show ?thesis
  proof cases
    case 1
    then show ?thesis by (rule isAlnum_ascii)
  next
    case 2
    then have "c \<in> {0x2D, 0x5F, 0x2E, 0x21, 0x7E, 0x2A, 0x27, 0x28, 0x29}"
      by (simp add: lit_def ch_def)
    then show ?thesis by auto
  qed
qed

lemma encodeURIComponent_total: "wellFormed s \<Longrightarrow> \<exists>e. encodeURIComponent s = Inr e"
proof (induction s rule: encodeURIComponent.induct)
  case 1
  show ?case by simp
next
  case (2 c cs)
  show ?case
  proof (cases "uriUnreserved c")
    case True
    have "c < 0x80" by (rule uriUnreserved_ascii[OF True])
    with "2.prems" have "wellFormed cs" using ascii_not_surrogate[of c] by simp
    from "2.IH"(1)[OF True this] obtain r where "encodeURIComponent cs = Inr r" by blast
    with True show ?thesis by simp
  next
    case u: False
    show ?thesis
    proof (cases "isTrailSurrogate c")
      case True
      then have "\<not> isLeadSurrogate c"
        by (auto simp: isLeadSurrogate_unat isTrailSurrogate_unat)
      with True "2.prems" have False by simp
      then show ?thesis ..
    next
      case t: False
      show ?thesis
      proof (cases "isLeadSurrogate c")
        case True
        with "2.prems" obtain d ds where d: "cs = d # ds" "isTrailSurrogate d" "wellFormed ds"
          by (cases cs) auto
        from "2.IH"(2)[OF u t True d(1) d(2) d(3)] obtain r where
          "encodeURIComponent ds = Inr r" by blast
        with u t True d show ?thesis by simp
      next
        case False
        with t "2.prems" have "wellFormed cs" by simp
        from "2.IH"(3)[OF u t False this] obtain r where "encodeURIComponent cs = Inr r" by blast
        with u t False show ?thesis by simp
      qed
    qed
  qed
qed

lemma percent_byte_ascii: "b < 256 \<Longrightarrow> isASCII (percent_byte b)"
proof -
  assume "b < 256"
  then have "b div 16 < 16" "b mod 16 < 16" by simp_all
  then show ?thesis
    by (simp add: isASCII_def percent_byte_def hex_upper_ascii ch_def)
qed

lemma percent_bytes_ascii: "cp < 0x110000 \<Longrightarrow> isASCII (concat (map percent_byte (utf8_encode cp)))"
  using utf8_encode_bytes[of cp] percent_byte_ascii by (auto simp: isASCII_def)

lemma encodeURIComponent_ascii: "encodeURIComponent s = Inr e \<Longrightarrow> isASCII e"
proof (induction s arbitrary: e rule: encodeURIComponent.induct)
  case 1
  then show ?case by (simp add: isASCII_def)
next
  case (2 c cs)
  show ?case
  proof (cases "uriUnreserved c")
    case True
    have c: "c < 0x80" by (rule uriUnreserved_ascii[OF True])
    from "2.prems" True obtain r where r: "encodeURIComponent cs = Inr r" "e = c # r"
      by (auto split: sum.splits)
    from "2.IH"(1)[OF True r(1)] c r(2) show ?thesis by (simp add: isASCII_def)
  next
    case u: False
    show ?thesis
    proof (cases "isTrailSurrogate c")
      case True
      with u "2.prems" show ?thesis by simp
    next
      case t: False
      show ?thesis
      proof (cases "isLeadSurrogate c")
        case True
        with u t "2.prems" obtain d ds r where d: "cs = d # ds" "isTrailSurrogate d"
          "encodeURIComponent ds = Inr r"
          "e = concat (map percent_byte (utf8_encode (pair_code_point c d))) @ r"
          by (auto split: list.splits if_splits sum.splits)
        have "pair_code_point c d < 0x110000"
          using pair_code_point_props(2)[OF True d(2)] by (simp add: isScalarValue_def)
        from percent_bytes_ascii[OF this] "2.IH"(2)[OF u t True d(1) d(2) d(3)] show ?thesis
          unfolding d(4) isASCII_append by simp
      next
        case False
        with u t "2.prems" obtain r where r: "encodeURIComponent cs = Inr r"
          "e = concat (map percent_byte (utf8_encode (unat c))) @ r"
          by (auto split: sum.splits)
        have "unat c < 0x110000" using unat_jschar_lt[of c] by simp
        from percent_bytes_ascii[OF this] "2.IH"(3)[OF u t False r(1)] show ?thesis
          unfolding r(2) isASCII_append by simp
      qed
    qed
  qed
qed

lemma wf_params_URLSearchParams: "wf_params (URLSearchParams s)"
  by (auto simp: wf_params_def URLSearchParams_def urlencoded_parse_def urlencoded_parse_pair_def
      Let_def USVString_utf8_decode)

lemma set_replace_first:
  "p \<in> set (replace_first n v ps) \<Longrightarrow> p = (n, v) \<or> p \<in> set ps"
  by (induction ps) (auto split: if_splits)

lemma wf_params_usp_set: "wf_params ps \<Longrightarrow> wf_params (usp_set n v ps)"
proof -
  assume w: "wf_params ps"
  show ?thesis
    unfolding wf_params_def
  proof
    fix p assume "p \<in> set (usp_set n v ps)"
    then have "p = (USVString n, USVString v) \<or> p \<in> set ps"
      unfolding usp_set_def Let_def using set_replace_first[of p "USVString n" "USVString v" ps]
      by (auto split: if_splits)
    with w show "USVString (fst p) = fst p \<and> USVString (snd p) = snd p"
      by (auto simp: wf_params_def USVString_idem)
  qed
qed

lemma wf_params_usp_delete: "wf_params ps \<Longrightarrow> wf_params (usp_delete n ps)"
  by (simp add: wf_params_def usp_delete_def)

lemma URLSearchParams_wf:
  "wf_params ps \<Longrightarrow> URLSearchParams (ch CHR ''?'' # usp_toString ps) = ps"
  unfolding URLSearchParams_toString wf_params_def by (induction ps) auto

lemma map_of_filter_other:
  "k \<noteq> n \<Longrightarrow> map_of (filter (\<lambda>q. fst q \<noteq> n) ps) k = map_of ps k"
  by (induction ps) auto

lemma map_of_replace_first_same:
  "n \<in> fst ` set ps \<Longrightarrow> map_of (replace_first n v ps) n = Some v"
  by (induction ps) auto

lemma map_of_replace_first_other:
  "k \<noteq> n \<Longrightarrow> map_of (replace_first n v ps) k = map_of ps k"
  by (induction ps) (auto simp: map_of_filter_other)

lemma map_of_append_fresh:
  "n \<notin> fst ` set ps \<Longrightarrow> map_of (ps @ [(n, v)]) n = Some v"
  by (induction ps) auto

lemma map_of_append_other:
  "k \<noteq> n \<Longrightarrow> map_of (ps @ [(n, v)]) k = map_of ps k"
  by (induction ps) auto

lemma usp_get_set_same: "usp_get k (usp_set k v ps) = Some (USVString v)"
  by (simp add: usp_get_def usp_set_def Let_def map_of_replace_first_same map_of_append_fresh
      del: map_of_append)

lemma usp_get_set_other:
  "USVString k' \<noteq> USVString k \<Longrightarrow> usp_get k' (usp_set k v ps) = usp_get k' ps"
  by (simp add: usp_get_def usp_set_def Let_def map_of_replace_first_other map_of_append_other
      del: map_of_append)

lemma usp_get_delete_same: "usp_get k (usp_delete k ps) = None"
  by (auto simp: usp_get_def usp_delete_def map_of_eq_None_iff)

lemma usp_get_delete_other:
  "USVString k' \<noteq> USVString k \<Longrightarrow> usp_get k' (usp_delete k ps) = usp_get k' ps"
  by (simp add: usp_get_def usp_delete_def map_of_filter_other)

lemma filter_replace_first:
  "P (n, v) = False \<Longrightarrow> (\<And>p. fst p = n \<Longrightarrow> \<not> P p) \<Longrightarrow>
   filter P (replace_first n v ps) = filter P ps"
proof (induction ps)
  case Nil
  show ?case by simp
next
  case (Cons p ps)
  have "filter P (filter (\<lambda>q. fst q \<noteq> n) ps) = filter P ps"
    using Cons.prems(2) by (auto intro: filter_cong)
  with Cons show ?case by auto
qed

lemma isASCII_lit_xAxisData: "isASCII (lit ''xAxisData'')" "isASCII (lit ''yAxisData'')"
  by (simp_all add: isASCII_def lit_def ch_def)

lemma USVString_axis:
  "USVString (lit ''xAxisData'') = lit ''xAxisData''"
  "USVString (lit ''yAxisData'') = lit ''yAxisData''"
  by (simp_all add: USVString_ascii isASCII_lit_xAxisData)

lemma axis_neq: "lit ''xAxisData'' \<noteq> lit ''yAxisData''"
  by (simp add: lit_def ch_def)

lemma filter_usp_set_axis:
  assumes "k = lit ''xAxisData'' \<or> k = lit ''yAxisData''"
  shows "filter (\<lambda>p. fst p \<noteq> lit ''xAxisData'' \<and> fst p \<noteq> lit ''yAxisData'') (usp_set k v ps)
       = filter (\<lambda>p. fst p \<noteq> lit ''xAxisData'' \<and> fst p \<noteq> lit ''yAxisData'') ps"
proof -
  from assms have k: "USVString k = k" using USVString_axis by auto
  show ?thesis
    unfolding usp_set_def Let_def k
    using assms by (auto simp: filter_replace_first)
qed

lemma filter_usp_delete_axis:
  assumes "k = lit ''xAxisData'' \<or> k = lit ''yAxisData''"
  shows "filter (\<lambda>p. fst p \<noteq> lit ''xAxisData'' \<and> fst p \<noteq> lit ''yAxisData'') (usp_delete k ps)
       = filter (\<lambda>p. fst p \<noteq> lit ''xAxisData'' \<and> fst p \<noteq> lit ''yAxisData'') ps"
proof -
  from assms have k: "USVString k = k" using USVString_axis by auto
  show ?thesis
    unfolding usp_delete_def k using assms by (auto intro: filter_cong)
qed

lemma set_join_with:
  "\<forall>p \<in> set pieces. \<forall>k \<in> set p. Q k \<Longrightarrow> Q sep \<Longrightarrow> \<forall>k \<in> set (join_with sep pieces). Q k"
proof (induction sep pieces rule: join_with.induct)
  case (1 sep)
  show ?case by simp
next
  case (2 sep x)
  then show ?case by simp
next
  case (3 sep x y r)
  from "3.prems" have "\<forall>k \<in> set (join_with sep (y # r)). Q k"
    by (intro "3.IH") simp_all
  with "3.prems" show ?case by auto
qed

lemma urlencoded_pair_codes: "k \<in> set (code_units (urlencoded_pair p)) \<Longrightarrow> query_code k"
  unfolding urlencoded_pair_def code_units_simps query_code_def
  using urlencoded_string_output[of k "fst p"] urlencoded_string_output[of k "snd p"]
  by (auto simp: unat_eq)

lemma usp_toString_codes:
  "k \<in> set (code_units (usp_toString ps)) \<Longrightarrow> query_code k"
proof -
  have "\<forall>k \<in> set (join_with 0x26 (map code_units (map urlencoded_pair ps))). query_code k"
  proof (rule set_join_with)
    show "\<forall>p \<in> set (map code_units (map urlencoded_pair ps)). \<forall>k \<in> set p. query_code k"
      using urlencoded_pair_codes by auto
    show "query_code 0x26" by (simp add: query_code_def)
  qed
  then show "k \<in> set (code_units (usp_toString ps)) \<Longrightarrow> query_code k"
    unfolding usp_toString_def code_units_join_with unat_amp by blast
qed

lemma url_query_state_id:
  assumes "\<forall>k \<in> set (code_units s). query_code k"
  shows "url_query_state s = s"
proof -
  have q: "\<And>k. query_code k \<Longrightarrow> k < 0x80 \<and> \<not> k \<le> 0x20 \<and> k \<notin> {0x22, 0x23, 0x27, 0x3C, 0x3E}
      \<and> \<not> 0x7E < k \<and> k \<noteq> 0x09 \<and> k \<noteq> 0x0A \<and> k \<noteq> 0x0D"
    unfolding query_code_def urlencoded_output_code_def urlencoded_safe_def by auto
  have lt: "\<And>c. c \<in> set s \<Longrightarrow> unat c < 0x80 \<and> \<not> unat c \<le> 0x20 \<and> unat c \<notin> {0x22, 0x23, 0x27, 0x3C, 0x3E}
      \<and> \<not> 0x7E < unat c \<and> unat c \<noteq> 0x09 \<and> unat c \<noteq> 0x0A \<and> unat c \<noteq> 0x0D"
    using assms q by (simp add: code_units_def)
  have a: "isASCII s"
    using lt by (auto simp: isASCII_def word_less_nat_alt)
  have f: "filter (\<lambda>c. c \<noteq> 0x09 \<and> c \<noteq> 0x0A \<and> c \<noteq> 0x0D) s = s"
  proof (rule filter_True, rule ballI)
    fix c assume "c \<in> set s"
    from lt[OF this] have "unat c \<noteq> 0x09 \<and> unat c \<noteq> 0x0A \<and> unat c \<noteq> 0x0D" by auto
    then show "c \<noteq> 0x09 \<and> c \<noteq> 0x0A \<and> c \<noteq> 0x0D" by auto
  qed
  have t: "takeWhile (\<lambda>c. c \<noteq> ch CHR ''#'') s = s"
  proof (rule takeWhile_eq_all_conv[THEN iffD2], rule ballI)
    fix c assume "c \<in> set s"
    from lt[OF this] have "unat c \<noteq> 0x23" by auto
    then show "c \<noteq> ch CHR ''#''" by (auto simp: ch_def)
  qed
  have m: "concat (map (\<lambda>cp. if cp \<le> 0x20 \<or> cp = 0x22 \<or> cp = 0x23 \<or> cp = 0x27 \<or> cp = 0x3C \<or>
                           cp = 0x3E \<or> 0x7E < cp
                        then concat (map percent_byte (utf8_encode cp)) else [of_nat cp])
       (map unat s)) = s"
    using lt by (induction s) auto
  show ?thesis
    unfolding url_query_state_def f t to_scalar_values_ascii[OF a] by (rule m)
qed

lemma url_query_state_toString: "url_query_state (usp_toString ps) = usp_toString ps"
  by (rule url_query_state_id) (use usp_toString_codes in blast)

lemma join_with_not_Nil: "a \<noteq> [] \<Longrightarrow> join_with sep (a # r) \<noteq> []"
  by (cases r) auto

lemma usp_toString_not_Nil: "ps \<noteq> [] \<Longrightarrow> usp_toString ps \<noteq> []"
  by (cases ps) (simp_all add: usp_toString_def join_with_not_Nil urlencoded_pair_def)

lemma location_search_pushState:
  "ps \<noteq> [] \<Longrightarrow> location_search (pushState (usp_toString ps) st) = ch CHR ''?'' # usp_toString ps"
  by (simp add: pushState_def Let_def url_query_state_toString usp_toString_not_Nil)

lemma usp_set_not_Nil: "usp_set k v ps \<noteq> []"
  by (cases ps) (auto simp: usp_set_def Let_def)

lemma usp_get_not_Nil: "usp_get k ps = Some v \<Longrightarrow> ps \<noteq> []"
  by (auto simp: usp_get_def)

lemma encode_JSON:
  obtains e where "encodeURIComponent (JSON_stringify x) = Inr e" "isASCII e"
    "decodeURIComponent e = Inr (JSON_stringify x)"
proof -
  from encodeURIComponent_total[OF wellFormed_JSON_stringify] obtain e where
    e: "encodeURIComponent (JSON_stringify x) = Inr e" by blast
  from that[OF e encodeURIComponent_ascii[OF e] decode_encode[OF e]] show ?thesis .
qed

lemma setQueryParams_result:
  assumes "x \<noteq> []"
    and ex: "encodeURIComponent (JSON_stringify x) = Inr ex"
    and ey: "encodeURIComponent (JSON_stringify y) = Inr ey"
  shows "setQueryParams (Some x) y st =
     Inr (pushState (usp_toString (new_params x y ex ey (URLSearchParams (location_search st)))) st)"
  using assms by (simp add: setQueryParams_def new_params_def Let_def)

lemma new_params_not_Nil: "new_params x y ex ey ps \<noteq> []"
proof -
  have "usp_get (lit ''xAxisData'') (new_params x y ex ey ps) = Some (USVString ex)"
    unfolding new_params_def
    using axis_neq
    by (simp add: usp_get_set_other usp_get_delete_other usp_get_set_same USVString_axis)
  then show ?thesis by (rule usp_get_not_Nil)
qed

lemma wf_new_params: "wf_params ps \<Longrightarrow> wf_params (new_params x y ex ey ps)"
  by (simp add: new_params_def wf_params_usp_set wf_params_usp_delete)

lemma URLSearchParams_after:
  assumes "x \<noteq> []"
    and ex: "encodeURIComponent (JSON_stringify x) = Inr ex"
    and ey: "encodeURIComponent (JSON_stringify y) = Inr ey"
    and r: "setQueryParams (Some x) y st = Inr st'"
  shows "URLSearchParams (location_search st') =
         new_params x y ex ey (URLSearchParams (location_search st))"
proof -
  let ?ps = "new_params x y ex ey (URLSearchParams (location_search st))"
  from r setQueryParams_result[OF assms(1) ex ey, of st]
  have st': "st' = pushState (usp_toString ?ps) st" by simp
  have "location_search st' = ch CHR ''?'' # usp_toString ?ps"
    unfolding st' by (rule location_search_pushState[OF new_params_not_Nil])
  then show ?thesis
    by (simp add: URLSearchParams_wf wf_new_params wf_params_URLSearchParams)
qed

lemma usp_get_new_params:
  assumes "isASCII ex" "isASCII ey"
  shows "usp_get (lit ''xAxisData'') (new_params x y ex ey ps) = Some ex"
    and "usp_get (lit ''yAxisData'') (new_params x y ex ey ps) =
           (if JSON_stringify x \<noteq> JSON_stringify y then Some ey else None)"
  unfolding new_params_def
  using axis_neq assms
  by (simp_all add: usp_get_set_other usp_get_delete_other usp_get_set_same usp_get_delete_same
      USVString_axis USVString_ascii)

lemma filter_new_params:
  "filter (\<lambda>p. fst p \<noteq> lit ''xAxisData'' \<and> fst p \<noteq> lit ''yAxisData'') (new_params x y ex ey ps)
   = filter (\<lambda>p. fst p \<noteq> lit ''xAxisData'' \<and> fst p \<noteq> lit ''yAxisData'') ps"
  by (simp add: new_params_def filter_usp_set_axis filter_usp_delete_axis)

lemma read_axis_null: "usp_get axis ps = None \<Longrightarrow> read_axis ps axis = Inr JNull"
proof -
  have d: "decodeURIComponent (lit ''null'') = Inr (lit ''null'')" by code_simp
  have p: "JSON_parse (lit ''null'') = Inr JNull" by code_simp
  assume "usp_get axis ps = None"
  then show ?thesis by (simp add: read_axis_def d p)
qed

lemma read_axis_encoded:
  assumes "usp_get axis ps = Some e" "decodeURIComponent e = Inr (JSON_stringify arr)"
    "\<forall>obj \<in> set arr. distinct (map fst obj)"
  shows "read_axis ps axis = Inr (json_of_array arr)"
  using assms by (simp add: read_axis_def JSON_parse_stringify)

lemma json_of_array_inj: "json_of_array a = json_of_array b \<Longrightarrow> a = b"
proof -
  have i: "inj (\<lambda>p::jsstring \<times> jsstring. (fst p, JString (snd p)))"
    by (auto simp: inj_on_def prod_eq_iff)
  have j: "inj json_of_object"
    unfolding json_of_object_def
    using inj_mapI[OF i] by (auto simp: inj_on_def)
  assume "json_of_array a = json_of_array b"
  then show ?thesis
    unfolding json_of_array_def using inj_mapI[OF j] by (auto simp: inj_on_def)
qed

lemma stringify_eq_iff:
  assumes "\<forall>obj \<in> set a. distinct (map fst obj)" "\<forall>obj \<in> set b. distinct (map fst obj)"
  shows "JSON_stringify a = JSON_stringify b \<longleftrightarrow> a = b"
proof
  assume "JSON_stringify a = JSON_stringify b"
  then have "JSON_parse (JSON_stringify a) = JSON_parse (JSON_stringify b)" by simp
  then have "json_of_array a = json_of_array b"
    by (simp add: JSON_parse_stringify assms)
  then show "a = b" by (rule json_of_array_inj)
qed simp








lemma usp_get_ascii: "isASCII name \<Longrightarrow> usp_get name ps = map_of ps name"
  by (simp add: usp_get_def USVString_ascii)

lemma URLSearchParams_ascii:
  assumes "search = ch CHR ''?'' # usp_toString ps"
    and "list_all (\<lambda>p. isASCII (fst p) \<and> isASCII (snd p)) ps"
  shows "URLSearchParams search = ps"
proof -
  have "map (\<lambda>p. (USVString (fst p), USVString (snd p))) ps = map (\<lambda>p. p) ps"
    using assms(2) by (intro map_cong) (auto simp: list_all_iff USVString_ascii)
  then show ?thesis unfolding assms(1) URLSearchParams_toString by simp
qed

lemma isASCII_axes: "isASCII (lit ''xAxisData'')" "isASCII (lit ''yAxisData'')"
  by code_simp+

lemma example_search_params:
  "URLSearchParams (location_search example_page) =
     [(lit ''utm'', lit ''a b''), (lit ''yAxisData'', lit ''old''),
      (lit ''xAxisData'', lit ''[]''), (lit ''xAxisData'', lit ''dup'')]"
  by (rule URLSearchParams_ascii; code_simp)

section \<open>Properties of the URL state\<close>

text \<open>
  C1: for every non-empty \<open>x\<close> and every \<open>y\<close> (arrays of objects with distinct keys),
  \<open>setQueryParams\<close> succeeds, and reading the URL it pushed gives back the arrays:
  \<open>getDataFromQueryParams\<close> returns \<open>x\<close> for \<open>xAxisData\<close> and, for \<open>yAxisData\<close>, \<open>y\<close> when
  \<open>x\<close> and \<open>y\<close> differ and \<open>null\<close> when they are equal; \<open>handlePopstate\<close> then works with
  the pair \<open>(x, y)\<close>, which is \<open>(x, x)\<close> in the second case. The percent-encoding of
  \<open>encodeURIComponent\<close> and that of the serializer of \<open>URLSearchParams\<close> are undone by the
  parser of \<open>URLSearchParams\<close> and by \<open>decodeURIComponent\<close>, whatever parameters the query
  held before.
\<close>

theorem C1_codec_round_trip:
  assumes "x \<noteq> []"
    and "\<forall>obj \<in> set x. distinct (map fst obj)" "\<forall>obj \<in> set y. distinct (map fst obj)"
  shows "\<exists>st'. setQueryParams (Some x) y st = Inr st' \<and>
           getDataFromQueryParams st' =
             Inr \<lparr> colors_xAxisData = json_of_array x,
                   colors_yAxisData = (if x = y then JNull else json_of_array y) \<rparr> \<and>
           handlePopstate_axes st' = Inr (json_of_array x, json_of_array y)"
proof -
  obtain ex where ex: "encodeURIComponent (JSON_stringify x) = Inr ex" "isASCII ex"
    "decodeURIComponent ex = Inr (JSON_stringify x)" by (rule encode_JSON)
  obtain ey where ey: "encodeURIComponent (JSON_stringify y) = Inr ey" "isASCII ey"
    "decodeURIComponent ey = Inr (JSON_stringify y)" by (rule encode_JSON)
  let ?st' = "pushState (usp_toString (new_params x y ex ey (URLSearchParams (location_search st)))) st"
  have r: "setQueryParams (Some x) y st = Inr ?st'"
    by (rule setQueryParams_result[OF assms(1) ex(1) ey(1)])
  note ps = URLSearchParams_after[OF assms(1) ex(1) ey(1) r]
  note g = usp_get_new_params[OF ex(2) ey(2), of x y "URLSearchParams (location_search st)"]
  have rx: "read_axis (URLSearchParams (location_search ?st')) (lit ''xAxisData'') =
      Inr (json_of_array x)"
    unfolding ps by (rule read_axis_encoded[OF g(1) ex(3) assms(2)])
  have ry: "read_axis (URLSearchParams (location_search ?st')) (lit ''yAxisData'') =
      Inr (if x = y then JNull else json_of_array y)"
  proof (cases "x = y")
    case True
    then have "usp_get (lit ''yAxisData'') (new_params x y ex ey (URLSearchParams (location_search st)))
        = None" using g(2) by simp
    from read_axis_null[OF this] True show ?thesis unfolding ps by simp
  next
    case False
    then have "JSON_stringify x \<noteq> JSON_stringify y"
      using stringify_eq_iff[OF assms(2,3)] by simp
    then have "usp_get (lit ''yAxisData'') (new_params x y ex ey (URLSearchParams (location_search st)))
        = Some ey" using g(2) by simp
    from read_axis_encoded[OF this ey(3) assms(3)] False show ?thesis unfolding ps by simp
  qed
  have gd: "getDataFromQueryParams ?st' =
             Inr \<lparr> colors_xAxisData = json_of_array x,
                   colors_yAxisData = (if x = y then JNull else json_of_array y) \<rparr>"
    unfolding getDataFromQueryParams_def Let_def rx ry by simp
  have hp: "handlePopstate_axes ?st' = Inr (json_of_array x, json_of_array y)"
    unfolding handlePopstate_axes_def gd by (simp add: json_of_array_def Let_def)
  from r gd hp show ?thesis by blast
qed

theorem C1_codec_round_trip_witness:
  "\<exists>st'. setQueryParams (Some [[(lit ''name'', lit ''White''), (lit ''color'', lit ''#fff'')]])
            [[(lit ''color'', lit ''#0d8764'')]] example_page = Inr st' \<and>
         handlePopstate_axes st' =
           Inr (JArray [JObject [(lit ''name'', JString (lit ''White'')),
                                 (lit ''color'', JString (lit ''#fff''))]],
                JArray [JObject [(lit ''color'', JString (lit ''#0d8764''))]])"
proof -
  let ?x = "[[(lit ''name'', lit ''White''), (lit ''color'', lit ''#fff'')]]"
  let ?y = "[[(lit ''color'', lit ''#0d8764'')]]"
  have n: "?x \<noteq> []" by simp
  have dx: "\<forall>obj \<in> set ?x. distinct (map fst obj)" by code_simp
  have dy: "\<forall>obj \<in> set ?y. distinct (map fst obj)" by simp
  from C1_codec_round_trip[OF n dx dy, of example_page] show ?thesis
    by (auto simp: json_of_array_def json_of_object_def)
qed

text \<open>
  C2: for every non-empty \<open>x\<close> and every \<open>y\<close>, after \<open>setQueryParams\<close> the parameter
  \<open>xAxisData\<close> is the percent-encoded JSON text of \<open>x\<close>, and the parameter \<open>yAxisData\<close> is
  the percent-encoded JSON text of \<open>y\<close> if the JSON texts of \<open>x\<close> and \<open>y\<close> differ and is
  absent if they are identical, also when the query had such a parameter before.
\<close>

theorem C2_axis_compaction:
  assumes "x \<noteq> []"
  shows "\<exists>st' ex ey.
           setQueryParams (Some x) y st = Inr st' \<and>
           encodeURIComponent (JSON_stringify x) = Inr ex \<and>
           encodeURIComponent (JSON_stringify y) = Inr ey \<and>
           usp_get (lit ''xAxisData'') (URLSearchParams (location_search st')) = Some ex \<and>
           usp_get (lit ''yAxisData'') (URLSearchParams (location_search st')) =
             (if JSON_stringify x \<noteq> JSON_stringify y then Some ey else None)"
proof -
  obtain ex where ex: "encodeURIComponent (JSON_stringify x) = Inr ex" "isASCII ex"
    "decodeURIComponent ex = Inr (JSON_stringify x)" by (rule encode_JSON)
  obtain ey where ey: "encodeURIComponent (JSON_stringify y) = Inr ey" "isASCII ey"
    "decodeURIComponent ey = Inr (JSON_stringify y)" by (rule encode_JSON)
  let ?st' = "pushState (usp_toString (new_params x y ex ey (URLSearchParams (location_search st)))) st"
  have r: "setQueryParams (Some x) y st = Inr ?st'"
    by (rule setQueryParams_result[OF assms(1) ex(1) ey(1)])
  note ps = URLSearchParams_after[OF assms(1) ex(1) ey(1) r]
  note g = usp_get_new_params[OF ex(2) ey(2), of x y "URLSearchParams (location_search st)"]
  have gx: "usp_get (lit ''xAxisData'') (URLSearchParams (location_search ?st')) = Some ex"
    unfolding ps by (rule g(1))
  have gy: "usp_get (lit ''yAxisData'') (URLSearchParams (location_search ?st')) =
             (if JSON_stringify x \<noteq> JSON_stringify y then Some ey else None)"
    unfolding ps by (rule g(2))
  from r ex(1) ey(1) gx gy show ?thesis by blast
qed

theorem C2_axis_compaction_witness:
  "\<exists>st'. setQueryParams (Some [[(lit ''color'', lit ''#fff'')]]) [[(lit ''color'', lit ''#fff'')]]
            example_page = Inr st' \<and>
         usp_get (lit ''xAxisData'') (URLSearchParams (location_search st')) \<noteq> None \<and>
         usp_get (lit ''yAxisData'') (URLSearchParams (location_search st')) = None \<and>
         usp_get (lit ''yAxisData'') (URLSearchParams (location_search example_page)) =
           Some (lit ''old'')"
proof -
  have o: "usp_get (lit ''yAxisData'') (URLSearchParams (location_search example_page)) =
           Some (lit ''old'')"
    unfolding example_search_params usp_get_ascii[OF isASCII_axes(2)] by code_simp
  from C2_axis_compaction[of "[[(lit ''color'', lit ''#fff'')]]" "[[(lit ''color'', lit ''#fff'')]]" example_page]
    o show ?thesis by auto
qed

text \<open>
  C9: with an absent or empty \<open>x\<close>, \<open>setQueryParams\<close> leaves the page as it is; with a
  non-empty \<open>x\<close> it changes the query and the history only, and the parameters of the
  query other than \<open>xAxisData\<close> and \<open>yAxisData\<close> are the same, in the same order, before
  and after.
\<close>

theorem C9_encode_frame:
  "setQueryParams None y st = Inr st \<and>
   setQueryParams (Some []) y st = Inr st \<and>
   (x \<noteq> [] \<longrightarrow>
     (\<exists>st'. setQueryParams (Some x) y st = Inr st' \<and>
        filter (\<lambda>p. fst p \<noteq> lit ''xAxisData'' \<and> fst p \<noteq> lit ''yAxisData'')
          (URLSearchParams (location_search st'))
        = filter (\<lambda>p. fst p \<noteq> lit ''xAxisData'' \<and> fst p \<noteq> lit ''yAxisData'')
            (URLSearchParams (location_search st)) \<and>
        st' = st\<lparr>location_search := location_search st',
                 history_entries := history_entries st'\<rparr>))"
proof (intro conjI impI)
  show "setQueryParams None y st = Inr st" by (simp add: setQueryParams_def)
  show "setQueryParams (Some []) y st = Inr st" by (simp add: setQueryParams_def)
  assume x: "x \<noteq> []"
  obtain ex where ex: "encodeURIComponent (JSON_stringify x) = Inr ex" "isASCII ex"
    "decodeURIComponent ex = Inr (JSON_stringify x)" by (rule encode_JSON)
  obtain ey where ey: "encodeURIComponent (JSON_stringify y) = Inr ey" "isASCII ey"
    "decodeURIComponent ey = Inr (JSON_stringify y)" by (rule encode_JSON)
  let ?st' = "pushState (usp_toString (new_params x y ex ey (URLSearchParams (location_search st)))) st"
  have r: "setQueryParams (Some x) y st = Inr ?st'"
    by (rule setQueryParams_result[OF x ex(1) ey(1)])
  note ps = URLSearchParams_after[OF x ex(1) ey(1) r]
  have f: "filter (\<lambda>p. fst p \<noteq> lit ''xAxisData'' \<and> fst p \<noteq> lit ''yAxisData'')
          (URLSearchParams (location_search ?st'))
        = filter (\<lambda>p. fst p \<noteq> lit ''xAxisData'' \<and> fst p \<noteq> lit ''yAxisData'')
            (URLSearchParams (location_search st))"
    unfolding ps by (rule filter_new_params)
  have e: "?st' = st\<lparr>location_search := location_search ?st',
                 history_entries := history_entries ?st'\<rparr>"
    by (simp add: pushState_def Let_def)
  from r f e show "\<exists>st'. setQueryParams (Some x) y st = Inr st' \<and>
        filter (\<lambda>p. fst p \<noteq> lit ''xAxisData'' \<and> fst p \<noteq> lit ''yAxisData'')
          (URLSearchParams (location_search st'))
        = filter (\<lambda>p. fst p \<noteq> lit ''xAxisData'' \<and> fst p \<noteq> lit ''yAxisData'')
            (URLSearchParams (location_search st)) \<and>
        st' = st\<lparr>location_search := location_search st',
                 history_entries := history_entries st'\<rparr>"
    by blast
qed

theorem C9_encode_frame_witness:
  "\<exists>st'. setQueryParams (Some [[(lit ''color'', lit ''#fff'')]]) [[(lit ''color'', lit ''#000'')]]
            example_page = Inr st' \<and>
         filter (\<lambda>p. fst p \<noteq> lit ''xAxisData'' \<and> fst p \<noteq> lit ''yAxisData'')
           (URLSearchParams (location_search st')) = [(lit ''utm'', lit ''a b'')]"
proof -
  have o: "filter (\<lambda>p. fst p \<noteq> lit ''xAxisData'' \<and> fst p \<noteq> lit ''yAxisData'')
           (URLSearchParams (location_search example_page)) = [(lit ''utm'', lit ''a b'')]"
    unfolding example_search_params by code_simp
  from C9_encode_frame[of "[[(lit ''color'', lit ''#000'')]]" example_page "[[(lit ''color'', lit ''#fff'')]]"]
    o show ?thesis by auto
qed

text \<open>
  C7: \<open>getDataFromQueryParams\<close> fails when the parameter \<open>xAxisData\<close> or \<open>yAxisData\<close> is
  present and its decoded value is not a JSON text (for \<open>xAxisData\<close>, which is read
  first, with that very error), and it returns no partial result then. A parameter that
  is absent gives \<open>null\<close> for its axis, and an empty query gives \<open>null\<close> for both.
\<close>

theorem C7_decode_errors:
  "(usp_get (lit ''xAxisData'') (URLSearchParams (location_search st)) = Some v \<and>
      decodeURIComponent v = Inr text \<and> JSON_parse text = Inl e
      \<longrightarrow> getDataFromQueryParams st = Inl e) \<and>
   (usp_get (lit ''yAxisData'') (URLSearchParams (location_search st)) = Some v \<and>
      decodeURIComponent v = Inr text \<and> JSON_parse text = Inl e
      \<longrightarrow> (\<exists>e'. getDataFromQueryParams st = Inl e')) \<and>
   (usp_get (lit ''xAxisData'') (URLSearchParams (location_search st)) = None \<and>
      read_axis (URLSearchParams (location_search st)) (lit ''yAxisData'') = Inr y
      \<longrightarrow> getDataFromQueryParams st = Inr \<lparr>colors_xAxisData = JNull, colors_yAxisData = y\<rparr>) \<and>
   (read_axis (URLSearchParams (location_search st)) (lit ''xAxisData'') = Inr x \<and>
      usp_get (lit ''yAxisData'') (URLSearchParams (location_search st)) = None
      \<longrightarrow> getDataFromQueryParams st = Inr \<lparr>colors_xAxisData = x, colors_yAxisData = JNull\<rparr>) \<and>
   (location_search st = []
      \<longrightarrow> getDataFromQueryParams st = Inr \<lparr>colors_xAxisData = JNull, colors_yAxisData = JNull\<rparr>)"
proof (intro conjI impI)
  assume "usp_get (lit ''xAxisData'') (URLSearchParams (location_search st)) = Some v \<and>
      decodeURIComponent v = Inr text \<and> JSON_parse text = Inl e"
  then show "getDataFromQueryParams st = Inl e"
    by (simp add: getDataFromQueryParams_def read_axis_def)
next
  assume "usp_get (lit ''yAxisData'') (URLSearchParams (location_search st)) = Some v \<and>
      decodeURIComponent v = Inr text \<and> JSON_parse text = Inl e"
  then have "read_axis (URLSearchParams (location_search st)) (lit ''yAxisData'') = Inl e"
    by (simp add: read_axis_def)
  then show "\<exists>e'. getDataFromQueryParams st = Inl e'"
    by (simp add: getDataFromQueryParams_def Let_def split: sum.split)
next
  assume "usp_get (lit ''xAxisData'') (URLSearchParams (location_search st)) = None \<and>
      read_axis (URLSearchParams (location_search st)) (lit ''yAxisData'') = Inr y"
  then show "getDataFromQueryParams st = Inr \<lparr>colors_xAxisData = JNull, colors_yAxisData = y\<rparr>"
    by (simp add: getDataFromQueryParams_def read_axis_null)
next
  assume "read_axis (URLSearchParams (location_search st)) (lit ''xAxisData'') = Inr x \<and>
      usp_get (lit ''yAxisData'') (URLSearchParams (location_search st)) = None"
  then show "getDataFromQueryParams st = Inr \<lparr>colors_xAxisData = x, colors_yAxisData = JNull\<rparr>"
    by (simp add: getDataFromQueryParams_def read_axis_null)
next
  assume "location_search st = []"
  then show "getDataFromQueryParams st = Inr \<lparr>colors_xAxisData = JNull, colors_yAxisData = JNull\<rparr>"
    by (simp add: getDataFromQueryParams_def read_axis_null URLSearchParams_empty usp_get_def)
qed

theorem C7_decode_errors_witness:
  "getDataFromQueryParams (example_page\<lparr>location_search := lit ''?xAxisData=%5B%7B''\<rparr>) =
     Inl SyntaxError \<and>
   (\<exists>e'. getDataFromQueryParams example_page = Inl e') \<and>
   getDataFromQueryParams (example_page\<lparr>location_search := lit ''?yAxisData=%5B%5D''\<rparr>) =
     Inr \<lparr>colors_xAxisData = JNull, colors_yAxisData = JArray []\<rparr> \<and>
   getDataFromQueryParams (example_page\<lparr>location_search := lit ''?xAxisData=%5B%5D''\<rparr>) =
     Inr \<lparr>colors_xAxisData = JArray [], colors_yAxisData = JNull\<rparr> \<and>
   getDataFromQueryParams (example_page\<lparr>location_search := []\<rparr>) =
     Inr \<lparr>colors_xAxisData = JNull, colors_yAxisData = JNull\<rparr>"
proof -
  let ?a = "example_page\<lparr>location_search := lit ''?xAxisData=%5B%7B''\<rparr>"
  let ?c = "example_page\<lparr>location_search := lit ''?yAxisData=%5B%5D''\<rparr>"
  let ?d = "example_page\<lparr>location_search := lit ''?xAxisData=%5B%5D''\<rparr>"
  let ?e = "example_page\<lparr>location_search := []\<rparr>"
  have pa: "URLSearchParams (location_search ?a) = [(lit ''xAxisData'', lit ''[{'')]"
    by (rule URLSearchParams_ascii; code_simp)
  have pc: "URLSearchParams (location_search ?c) = [(lit ''yAxisData'', lit ''[]'')]"
    by (rule URLSearchParams_ascii; code_simp)
  have pd: "URLSearchParams (location_search ?d) = [(lit ''xAxisData'', lit ''[]'')]"
    by (rule URLSearchParams_ascii; code_simp)
  have a: "usp_get (lit ''xAxisData'') (URLSearchParams (location_search ?a)) = Some (lit ''[{'')"
    unfolding pa usp_get_ascii[OF isASCII_axes(1)] by code_simp
  have a': "decodeURIComponent (lit ''[{'') = Inr (lit ''[{'')"
    "JSON_parse (lit ''[{'') = Inl SyntaxError"
    by code_simp+
  have b: "usp_get (lit ''yAxisData'') (URLSearchParams (location_search example_page)) =
      Some (lit ''old'')"
    unfolding example_search_params usp_get_ascii[OF isASCII_axes(2)] by code_simp
  have b': "decodeURIComponent (lit ''old'') = Inr (lit ''old'')"
    "JSON_parse (lit ''old'') = Inl SyntaxError"
    by code_simp+
  have e': "decodeURIComponent (lit ''[]'') = Inr (lit ''[]'')"
    "JSON_parse (lit ''[]'') = Inr (JArray [])"
    by code_simp+
  have c: "usp_get (lit ''xAxisData'') (URLSearchParams (location_search ?c)) = None"
    unfolding pc usp_get_ascii[OF isASCII_axes(1)] by code_simp
  have c2: "usp_get (lit ''yAxisData'') (URLSearchParams (location_search ?c)) = Some (lit ''[]'')"
    unfolding pc usp_get_ascii[OF isASCII_axes(2)] by code_simp
  have c': "read_axis (URLSearchParams (location_search ?c)) (lit ''yAxisData'') = Inr (JArray [])"
    unfolding read_axis_def c2 by (simp add: e')
  have d2: "usp_get (lit ''xAxisData'') (URLSearchParams (location_search ?d)) = Some (lit ''[]'')"
    unfolding pd usp_get_ascii[OF isASCII_axes(1)] by code_simp
  have d: "read_axis (URLSearchParams (location_search ?d)) (lit ''xAxisData'') = Inr (JArray [])"
    unfolding read_axis_def d2 by (simp add: e')
  have d': "usp_get (lit ''yAxisData'') (URLSearchParams (location_search ?d)) = None"
    unfolding pd usp_get_ascii[OF isASCII_axes(2)] by code_simp
  have e: "location_search ?e = []" by simp
  from C7_decode_errors[of ?a "lit ''[{''" "lit ''[{''" SyntaxError] a a'
  have 1: "getDataFromQueryParams ?a = Inl SyntaxError" by blast
  from C7_decode_errors[of example_page "lit ''old''" "lit ''old''" SyntaxError] b b'
  have 2: "\<exists>e'. getDataFromQueryParams example_page = Inl e'" by blast
  from C7_decode_errors[of ?c _ _ _ "JArray []"] c c'
  have 3: "getDataFromQueryParams ?c =
     Inr \<lparr>colors_xAxisData = JNull, colors_yAxisData = JArray []\<rparr>" by blast
  from C7_decode_errors[of ?d _ _ _ _ "JArray []"] d d'
  have 4: "getDataFromQueryParams ?d =
     Inr \<lparr>colors_xAxisData = JArray [], colors_yAxisData = JNull\<rparr>" by blast
  from C7_decode_errors[of ?e] e
  have 5: "getDataFromQueryParams ?e =
     Inr \<lparr>colors_xAxisData = JNull, colors_yAxisData = JNull\<rparr>" by blast
  from 1 2 3 4 5 show ?thesis by blast
qed



end
